theory Spec2Isabelle
  imports Main "HOL-Library.Char_ord" "HOL-Library.List_Lexorder"
begin

section \<open>JavaScript values and the built-ins the server calls\<close>

text \<open>
  The server (\<^verbatim>\<open>backend/server.js\<close>, the first and most complete of the three
  versions) keeps two JSON documents on disk, \<^verbatim>\<open>data.json\<close> (published) and
  \<^verbatim>\<open>draft.json\<close> (draft). Every value it handles comes out of \<^verbatim>\<open>JSON.parse\<close>:
  a file's text or a request body. Such a value is modelled by the datatype below. An
  object is the list of its members in the order JavaScript enumerates them (the order
  of insertion, for the keys used here), which is the order \<^verbatim>\<open>JSON.stringify\<close>
  writes them in. Numbers are integers (timestamps and counters) and are printed in
  decimal, as JavaScript prints an integer below \<open>10\<^sup>2\<^sup>1\<close>; fractions and exponents are
  left out. Strings are byte strings (UTF-8), and letter case is folded on the ASCII
  letters only. The model is therefore exact on integers below \<open>2\<^sup>5\<^sup>3\<close> in absolute
  value and on ASCII names; the theorems on deleting by timestamp and on deleting by
  group and date assume that much of their input.
  JavaScript's \<^verbatim>\<open>undefined\<close> is \<open>None\<close> of \<open>json option\<close>.
\<close>

datatype json =
    JNull
  | JBool bool
  | JNum int
  | JStr string
  | JArr "json list"
  | JObj "(string \<times> json) list"

datatype js_error = TypeError | URIError | SyntaxError | ENOENT | EACCES

text \<open>\<^verbatim>\<open>!!v\<close>: the values JavaScript treats as false are \<^verbatim>\<open>undefined\<close>, \<^verbatim>\<open>null\<close>,
  \<^verbatim>\<open>false\<close>, \<^verbatim>\<open>0\<close> and the empty string.\<close>

fun truthy :: "json option \<Rightarrow> bool" where
  "truthy None = False"
| "truthy (Some JNull) = False"
| "truthy (Some (JBool b)) = b"
| "truthy (Some (JNum n)) = (n \<noteq> 0)"
| "truthy (Some (JStr s)) = (s \<noteq> [])"
| "truthy (Some (JArr xs)) = True"
| "truthy (Some (JObj kvs)) = True"

text \<open>\<^verbatim>\<open>v.name\<close> for the member names the server reads (\<^verbatim>\<open>groups\<close>, \<^verbatim>\<open>logs\<close>,
  \<^verbatim>\<open>ts\<close>, \<^verbatim>\<open>date\<close>, \<^verbatim>\<open>type\<close>, \<^verbatim>\<open>group\<close>): an object gives its member or
  \<^verbatim>\<open>undefined\<close>, any other non-null value gives \<^verbatim>\<open>undefined\<close>.\<close>

fun field :: "json \<Rightarrow> string \<Rightarrow> json option" where
  "field (JObj kvs) name = map_of kvs name"
| "field _ name = None"

text \<open>Reading a member of \<^verbatim>\<open>null\<close> or \<^verbatim>\<open>undefined\<close> throws a TypeError.\<close>

fun get :: "json option \<Rightarrow> string \<Rightarrow> js_error + json option" where
  "get None name = Inl TypeError"
| "get (Some JNull) name = Inl TypeError"
| "get (Some v) name = Inr (field v name)"

fun Array_isArray :: "json option \<Rightarrow> bool" where
  "Array_isArray (Some (JArr xs)) = True"
| "Array_isArray _ = False"

text \<open>\<^verbatim>\<open>obj.name = v\<close> on an object: an existing member is replaced where it stands, a
  new one is added at the end.\<close>

fun assign_member :: "(string \<times> json) list \<Rightarrow> string \<Rightarrow> json \<Rightarrow> (string \<times> json) list" where
  "assign_member [] name v = [(name, v)]"
| "assign_member ((k, w) # kvs) name v =
     (if k = name then (k, v) # kvs else (k, w) # assign_member kvs name v)"


definition lower_char :: "char \<Rightarrow> char" where
  "lower_char c =
     (let n = (of_char c :: nat) in if 65 \<le> n \<and> n \<le> 90 then char_of (n + 32) else c)"

definition toLowerCase :: "string \<Rightarrow> string" where
  "toLowerCase s = map lower_char s"

subsection \<open>Number and string conversion\<close>

text \<open>\<^verbatim>\<open>Number.prototype.toString\<close> on a safe integer (below \<open>2\<^sup>5\<^sup>3\<close> in absolute
  value): the decimal digits, with a sign. JavaScript prints an integer from
  \<open>10\<^sup>2\<^sup>1\<close> on with an exponent, which \<open>Number_toString\<close> does not; \<open>safe_numbers\<close>
  marks the values whose numbers, also inside arrays, are safe integers.\<close>

definition digit_char :: "nat \<Rightarrow> char" where
  "digit_char n = char_of (48 + n)"

fun decimal :: "nat \<Rightarrow> string" where
  "decimal n = (if n < 10 then [digit_char n] else decimal (n div 10) @ [digit_char (n mod 10)])"

declare decimal.simps [simp del]

definition Number_toString :: "int \<Rightarrow> string" where
  "Number_toString n = (if n < 0 then CHR ''-'' # decimal (nat (- n)) else decimal (nat n))"

fun commas :: "string list \<Rightarrow> string" where
  "commas [] = []"
| "commas [x] = x"
| "commas (x # y # ys) = x @ CHR '','' # commas (y # ys)"

fun safe_numbers :: "json \<Rightarrow> bool" where
  "safe_numbers (JNum n) = (\<bar>n\<bar> < 2 ^ 53)"
| "safe_numbers (JArr xs) = list_all safe_numbers xs"
| "safe_numbers v = True"

text \<open>The string \<^verbatim>\<open>String(v)\<close> returns, when it returns: a string is itself, a number
  its decimal form, an array its elements joined by commas (\<^verbatim>\<open>null\<close> elements as the
  empty string), an object \<^verbatim>\<open>[object Object]\<close>, and \<^verbatim>\<open>undefined\<close> the string
  \<^verbatim>\<open>undefined\<close>.\<close>

fun to_String :: "json \<Rightarrow> string" where
  "to_String JNull = ''null''"
| "to_String (JBool b) = (if b then ''true'' else ''false'')"
| "to_String (JNum n) = Number_toString n"
| "to_String (JStr s) = s"
| "to_String (JArr xs) = commas (map (\<lambda>x. if x = JNull then [] else to_String x) xs)"
| "to_String (JObj kvs) = ''[object Object]''"

fun js_String :: "json option \<Rightarrow> string" where
  "js_String None = ''undefined''"
| "js_String (Some v) = to_String v"

text \<open>\<^verbatim>\<open>String(v)\<close> itself (the abstract operation ToString of ECMA-262). The
  conversion of an object calls its \<^verbatim>\<open>toString\<close>, then its \<^verbatim>\<open>valueOf\<close>. An object
  of a parsed document inherits both, unless it has a member of that name of its own,
  which is never callable. So an object with a member \<^verbatim>\<open>toString\<close> of its own is
  left with the inherited \<^verbatim>\<open>valueOf\<close>, which returns the object, and the conversion
  throws a TypeError; so does the conversion of an array with such an element.\<close>

fun String_throws :: "json \<Rightarrow> bool" where
  "String_throws (JObj kvs) = (''toString'' \<in> set (map fst kvs))"
| "String_throws (JArr xs) = list_ex String_throws xs"
| "String_throws v = False"

definition ToString :: "json option \<Rightarrow> js_error + string" where
  "ToString v =
     (case v of
        None \<Rightarrow> Inr (js_String None)
      | Some w \<Rightarrow> if String_throws w then Inl TypeError else Inr (js_String (Some w)))"

subsection \<open>\<^verbatim>\<open>JSON.stringify\<close>\<close>

text \<open>The compact form \<^verbatim>\<open>JSON.stringify(v)\<close>. A string is quoted with the escapes of
  ECMA-262's QuoteJSONString: the quote, the backslash, the five short escapes, and
  \<^verbatim>\<open>\u00XX\<close> for every other control character.\<close>

definition hex_char :: "nat \<Rightarrow> char" where
  "hex_char n = (if n < 10 then char_of (48 + n) else char_of (87 + n))"

definition escape_char :: "char \<Rightarrow> string" where
  "escape_char c =
     (let n = (of_char c :: nat) in
      if n = 8 then [CHR 0x5C, CHR ''b'']
      else if n = 9 then [CHR 0x5C, CHR ''t'']
      else if n = 10 then [CHR 0x5C, CHR ''n'']
      else if n = 12 then [CHR 0x5C, CHR ''f'']
      else if n = 13 then [CHR 0x5C, CHR ''r'']
      else if n = 34 then [CHR 0x5C, CHR 0x22]
      else if n = 92 then [CHR 0x5C, CHR 0x5C]
      else if n < 32 then
        [CHR 0x5C, CHR ''u'', CHR ''0'', CHR ''0'', hex_char (n div 16), hex_char (n mod 16)]
      else [c])"

definition QuoteJSONString :: "string \<Rightarrow> string" where
  "QuoteJSONString s = CHR 0x22 # concat (map escape_char s) @ [CHR 0x22]"

fun JSON_stringify :: "json \<Rightarrow> string" where
  "JSON_stringify JNull = ''null''"
| "JSON_stringify (JBool b) = (if b then ''true'' else ''false'')"
| "JSON_stringify (JNum n) = Number_toString n"
| "JSON_stringify (JStr s) = QuoteJSONString s"
| "JSON_stringify (JArr xs) = CHR ''['' # commas (map JSON_stringify xs) @ '']''"
| "JSON_stringify (JObj kvs) =
     CHR ''{'' # commas (map (\<lambda>kv. QuoteJSONString (fst kv) @ CHR '':'' # JSON_stringify (snd kv)) kvs)
       @ ''}''"

subsection \<open>\<^verbatim>\<open>decodeURIComponent\<close>\<close>

text \<open>Strings are byte strings (UTF-8). \<^verbatim>\<open>decodeURIComponent\<close> replaces every
  \<^verbatim>\<open>%XX\<close> by the byte it names and copies every other character. It throws a
  URIError when a \<^verbatim>\<open>%\<close> is not followed by two hexadecimal digits, and when the
  escaped bytes from \<open>0x80\<close> on do not form well-formed UTF-8 sequences of escapes.\<close>

datatype token = Plain char | Escaped nat

definition hex_digit :: "char \<Rightarrow> nat option" where
  "hex_digit c =
     (let n = (of_char c :: nat) in
      if 48 \<le> n \<and> n \<le> 57 then Some (n - 48)
      else if 65 \<le> n \<and> n \<le> 70 then Some (n - 55)
      else if 97 \<le> n \<and> n \<le> 102 then Some (n - 87)
      else None)"

fun percent_tokens :: "string \<Rightarrow> token list option" where
  "percent_tokens [] = Some []"
| "percent_tokens (c # h # l # rest) =
     (if c = CHR ''%'' then
        (case (hex_digit h, hex_digit l) of
           (Some a, Some b) \<Rightarrow> map_option ((#) (Escaped (16 * a + b))) (percent_tokens rest)
         | _ \<Rightarrow> None)
      else map_option ((#) (Plain c)) (percent_tokens (h # l # rest)))"
| "percent_tokens (c # rest) =
     (if c = CHR ''%'' then None else map_option ((#) (Plain c)) (percent_tokens rest))"

text \<open>\<open>utf8_escapes k lo hi ts\<close>: \<open>k\<close> continuation bytes are still due, the next one
  within \<open>lo..hi\<close> (the well-formed byte sequences of the Unicode standard, table 3-7).\<close>

fun utf8_escapes :: "nat \<Rightarrow> nat \<Rightarrow> nat \<Rightarrow> token list \<Rightarrow> bool" where
  "utf8_escapes 0 lo hi [] = True"
| "utf8_escapes (Suc k) lo hi [] = False"
| "utf8_escapes 0 lo hi (Plain c # ts) = utf8_escapes 0 lo hi ts"
| "utf8_escapes (Suc k) lo hi (Plain c # ts) = False"
| "utf8_escapes 0 lo hi (Escaped b # ts) =
     (if b < 0x80 then utf8_escapes 0 lo hi ts
      else if 0xC2 \<le> b \<and> b \<le> 0xDF then utf8_escapes 1 0x80 0xBF ts
      else if b = 0xE0 then utf8_escapes 2 0xA0 0xBF ts
      else if b = 0xED then utf8_escapes 2 0x80 0x9F ts
      else if 0xE1 \<le> b \<and> b \<le> 0xEF then utf8_escapes 2 0x80 0xBF ts
      else if b = 0xF0 then utf8_escapes 3 0x90 0xBF ts
      else if b = 0xF4 then utf8_escapes 3 0x80 0x8F ts
      else if 0xF1 \<le> b \<and> b \<le> 0xF3 then utf8_escapes 3 0x80 0xBF ts
      else False)"
| "utf8_escapes (Suc k) lo hi (Escaped b # ts) =
     (if lo \<le> b \<and> b \<le> hi then utf8_escapes k 0x80 0xBF ts else False)"

fun token_char :: "token \<Rightarrow> char" where
  "token_char (Plain c) = c"
| "token_char (Escaped b) = char_of b"

definition decodeURIComponent :: "string \<Rightarrow> js_error + string" where
  "decodeURIComponent s =
     (case percent_tokens s of
        None \<Rightarrow> Inl URIError
      | Some ts \<Rightarrow> if utf8_escapes 0 0x80 0xBF ts then Inr (map token_char ts) else Inl URIError)"

subsection \<open>\<^verbatim>\<open>Array.prototype.filter\<close> with a callback that may throw\<close>

fun Array_filter :: "('a \<Rightarrow> js_error + bool) \<Rightarrow> 'a list \<Rightarrow> js_error + 'a list" where
  "Array_filter keep [] = Inr []"
| "Array_filter keep (x # xs) =
     (case keep x of
        Inl e \<Rightarrow> Inl e
      | Inr b \<Rightarrow>
          (case Array_filter keep xs of
             Inl e \<Rightarrow> Inl e
           | Inr ys \<Rightarrow> Inr (if b then x # ys else ys)))"

section \<open>The file system\<close>

text \<open>
  The text of a file is read only through \<^verbatim>\<open>JSON.parse(raw || default)\<close> and written
  only as \<^verbatim>\<open>JSON.stringify(v, null, 2)\<close>. So a raw text is the empty string, a non-empty
  text \<^verbatim>\<open>JSON.parse\<close> rejects, or a text that parses to a value \<open>v\<close>; the text
  \<^verbatim>\<open>JSON.stringify(v, null, 2)\<close> is of the last kind, for the same \<open>v\<close>. A file is
  missing, present but unreadable, or has a text. A write to a path in \<open>write_denied\<close>
  throws and leaves the file as it is.
\<close>

type_synonym path = string

datatype raw = Empty | Malformed | Json json

datatype file_state = Missing | Unreadable | Content raw

record disk =
  files :: "path \<Rightarrow> file_state"
  write_denied :: "path \<Rightarrow> bool"

definition DATA_FILE :: path where
  "DATA_FILE = ''data.json''"

definition DRAFT_FILE :: path where
  "DRAFT_FILE = ''draft.json''"

definition existsSync :: "path \<Rightarrow> disk \<Rightarrow> bool" where
  "existsSync p d = (files d p \<noteq> Missing)"

definition readFileSync :: "path \<Rightarrow> disk \<Rightarrow> js_error + raw" where
  "readFileSync p d =
     (case files d p of
        Missing \<Rightarrow> Inl ENOENT
      | Unreadable \<Rightarrow> Inl EACCES
      | Content t \<Rightarrow> Inr t)"

fun JSON_parse :: "raw \<Rightarrow> js_error + json" where
  "JSON_parse (Json v) = Inr v"
| "JSON_parse Empty = Inl SyntaxError"
| "JSON_parse Malformed = Inl SyntaxError"

definition JSON_stringify_indented :: "json \<Rightarrow> raw" where
  "JSON_stringify_indented v = Json v"

text \<open>The calls a function makes on the file system, in order. The server only ever
  calls \<^verbatim>\<open>fs.writeFileSync\<close>; \<open>RenameSync\<close> is there to state what a write through a
  temporary file would be.\<close>

datatype fs_call = WriteFileSync path raw | RenameSync path path

fun perform :: "fs_call \<Rightarrow> disk \<Rightarrow> js_error + disk" where
  "perform (WriteFileSync p t) d =
     (if write_denied d p then Inl EACCES else Inr (d\<lparr>files := (files d)(p := Content t)\<rparr>))"
| "perform (RenameSync p q) d =
     (if files d p = Missing then Inl ENOENT
      else if write_denied d q then Inl EACCES
      else Inr (d\<lparr>files := (files d)(q := files d p, p := Missing)\<rparr>))"

fun perform_all :: "fs_call list \<Rightarrow> disk \<Rightarrow> js_error + disk" where
  "perform_all [] d = Inr d"
| "perform_all (c # cs) d =
     (case perform c d of Inl e \<Rightarrow> Inl e | Inr d' \<Rightarrow> perform_all cs d')"

text \<open>A write through a temporary file, as the specification words it: the text goes
  to a path other than the target, which is then renamed onto the target.\<close>

fun write_then_rename :: "path \<Rightarrow> fs_call list \<Rightarrow> bool" where
  "write_then_rename target [WriteFileSync tmp t, RenameSync src dst] =
     (tmp \<noteq> target \<and> src = tmp \<and> dst = target)"
| "write_then_rename target cs = False"

section \<open>Loading and saving the two documents\<close>

definition empty_snapshot :: json where
  "empty_snapshot = JObj [(''groups'', JArr []), (''logs'', JArr [])]"

text \<open>\<^verbatim>\<open>raw || '{"groups":[],"logs":[]}'\<close>: the empty string is the only string that
  is false.\<close>

definition or_default :: "raw \<Rightarrow> raw" where
  "or_default r = (if r = Empty then Json empty_snapshot else r)"

text \<open>\<^verbatim>\<open>loadData\<close>: whatever the read or the parse throws is caught, and answered by
  the empty snapshot.\<close>

definition loadData :: "disk \<Rightarrow> json" where
  "loadData d =
     (case readFileSync DATA_FILE d of
        Inl err \<Rightarrow> empty_snapshot
      | Inr r \<Rightarrow>
          (case JSON_parse (or_default r) of
             Inl err \<Rightarrow> empty_snapshot
           | Inr v \<Rightarrow> v))"

definition saveData_calls :: "json \<Rightarrow> fs_call list" where
  "saveData_calls data = [WriteFileSync DATA_FILE (JSON_stringify_indented data)]"

definition saveData :: "json \<Rightarrow> disk \<Rightarrow> js_error + disk" where
  "saveData data d = perform_all (saveData_calls data) d"

text \<open>\<^verbatim>\<open>loadDraft\<close>: the same, but the catch block answers with \<^verbatim>\<open>loadData()\<close>.\<close>

definition loadDraft :: "disk \<Rightarrow> json" where
  "loadDraft d =
     (case readFileSync DRAFT_FILE d of
        Inl err \<Rightarrow> loadData d
      | Inr r \<Rightarrow>
          (case JSON_parse (or_default r) of
             Inl err \<Rightarrow> loadData d
           | Inr v \<Rightarrow> v))"

definition saveDraft_calls :: "json \<Rightarrow> fs_call list" where
  "saveDraft_calls data = [WriteFileSync DRAFT_FILE (JSON_stringify_indented data)]"

definition saveDraft :: "json \<Rightarrow> disk \<Rightarrow> js_error + disk" where
  "saveDraft data d = perform_all (saveDraft_calls data) d"

text \<open>What the module does when it is loaded: \<^verbatim>\<open>data.json\<close> is created with the
  empty snapshot if it does not exist, then \<^verbatim>\<open>draft.json\<close> is created as a copy of
  the published document if it does not exist. (The data directory and the users file
  are left out.)\<close>

definition startup :: "disk \<Rightarrow> js_error + disk" where
  "startup d =
     (case (if \<not> existsSync DATA_FILE d
            then perform (WriteFileSync DATA_FILE (JSON_stringify_indented empty_snapshot)) d
            else Inr d) of
        Inl e \<Rightarrow> Inl e
      | Inr d1 \<Rightarrow>
          if \<not> existsSync DRAFT_FILE d1
          then perform (WriteFileSync DRAFT_FILE (JSON_stringify_indented (loadData d1))) d1
          else Inr d1)"

section \<open>The request handlers\<close>

text \<open>A handler answers with \<^verbatim>\<open>res.status(n).json(body)\<close>, or an exception leaves it
  (Express then answers 500 with its own page). \<open>Express_page n\<close> is an answer of
  Express itself, with no handler run: 404 for no route, 400 for a parameter that does
  not decode.\<close>

datatype response = Reply nat json | Thrown js_error | Express_page nat

fun message :: "js_error \<Rightarrow> string" where
  "message TypeError = ''TypeError''"
| "message URIError = ''URI malformed''"
| "message SyntaxError = ''SyntaxError''"
| "message ENOENT = ''ENOENT: no such file or directory''"
| "message EACCES = ''EACCES: permission denied''"

definition get_data :: "disk \<Rightarrow> response \<times> disk" where
  "get_data d = (Reply 200 (loadData d), d)"

definition get_draft :: "disk \<Rightarrow> response \<times> disk" where
  "get_draft d = (Reply 200 (loadDraft d), d)"

text \<open>\<^verbatim>\<open>POST /api/save\<close>. The members of \<open>newData\<close> are read only when it is not
  false, so the reads cannot throw.\<close>

definition post_save :: "json \<Rightarrow> disk \<Rightarrow> response \<times> disk" where
  "post_save newData d =
     (if \<not> truthy (Some newData) \<or> \<not> Array_isArray (field newData ''groups'')
         \<or> \<not> Array_isArray (field newData ''logs'')
      then (Reply 400 (JObj [(''error'', JStr ''Groups and logs must be arrays'')]), d)
      else
        (case saveDraft newData d of
           Inl e \<Rightarrow> (Thrown e, d)
         | Inr d' \<Rightarrow> (Reply 200 (JObj [(''status'', JStr ''ok''), (''target'', JStr ''draft'')]), d')))"

definition post_publish :: "disk \<Rightarrow> response \<times> disk" where
  "post_publish d =
     (let draft = loadDraft d in
      case saveData draft d of
        Inl err \<Rightarrow> (Reply 500 (JObj [(''error'', JStr (''Publish failed: '' @ message err))]), d)
      | Inr d' \<Rightarrow>
          (Reply 200 (JObj [(''status'', JStr ''ok''), (''message'', JStr ''Published successfully'')]), d'))"

definition post_discard :: "disk \<Rightarrow> response \<times> disk" where
  "post_discard d =
     (let published = loadData d in
      case saveDraft published d of
        Inl err \<Rightarrow> (Reply 500 (JObj [(''error'', JStr (''Discard failed: '' @ message err))]), d)
      | Inr d' \<Rightarrow>
          (Reply 200 (JObj [(''status'', JStr ''ok''), (''message'', JStr ''Draft discarded'')]), d'))"

text \<open>\<^verbatim>\<open>GET /api/draft-status\<close>: the two documents are serialised again and the strings
  compared. Neither load nor \<^verbatim>\<open>JSON.stringify\<close> of a parsed value throws, so the catch
  block is never entered.\<close>

definition hasChanges :: "disk \<Rightarrow> bool" where
  "hasChanges d =
     (let published = JSON_stringify (loadData d); draft = JSON_stringify (loadDraft d)
      in published \<noteq> draft)"

definition get_draft_status :: "disk \<Rightarrow> response \<times> disk" where
  "get_draft_status d = (Reply 200 (JObj [(''hasChanges'', JBool (hasChanges d))]), d)"

text \<open>\<^verbatim>\<open>data.logs\<close> as the handlers use it, through \<^verbatim>\<open>.length\<close>, \<^verbatim>\<open>.push\<close> and
  \<^verbatim>\<open>.filter\<close>: a TypeError unless \<open>data\<close> is not null and its \<open>logs\<close> is an array.\<close>

definition logs_array :: "json \<Rightarrow> js_error + json list" where
  "logs_array data =
     (case get (Some data) ''logs'' of
        Inl e \<Rightarrow> Inl e
      | Inr (Some (JArr logs)) \<Rightarrow> Inr logs
      | Inr _ \<Rightarrow> Inl TypeError)"

text \<open>\<^verbatim>\<open>data.logs = logs\<close>.\<close>

fun set_logs :: "json \<Rightarrow> json list \<Rightarrow> json" where
  "set_logs (JObj kvs) logs = JObj (assign_member kvs ''logs'' (JArr logs))"
| "set_logs data logs = data"

definition get_logs :: "disk \<Rightarrow> response \<times> disk" where
  "get_logs d =
     (case get (Some (loadData d)) ''logs'' of
        Inl e \<Rightarrow> (Thrown e, d)
      | Inr l \<Rightarrow> (Reply 200 (case l of Some v \<Rightarrow> if truthy l then v else JArr [] | None \<Rightarrow> JArr []), d))"

text \<open>\<^verbatim>\<open>POST /api/logs\<close>: the entry needs a \<open>date\<close> and a \<open>type\<close> that are not false;
  nothing else is checked, and the entry is pushed onto the published logs.\<close>

definition post_logs :: "json \<Rightarrow> disk \<Rightarrow> response \<times> disk" where
  "post_logs newLog d =
     (if \<not> truthy (Some newLog) \<or> \<not> truthy (field newLog ''date'')
         \<or> \<not> truthy (field newLog ''type'')
      then (Reply 400 (JObj [(''error'', JStr ''Invalid log format'')]), d)
      else
        (let data = loadData d in
         case logs_array data of
           Inl e \<Rightarrow> (Thrown e, d)
         | Inr logs \<Rightarrow>
             (case saveData (set_logs data (logs @ [newLog])) d of
                Inl e \<Rightarrow> (Thrown e, d)
              | Inr d' \<Rightarrow> (Reply 200 (JObj [(''status'', JStr ''ok''), (''log'', newLog)]), d'))))"

text \<open>The lines the three delete handlers share:
  \<^verbatim>\<open>const data = loadData(); const before = data.logs.length;
  data.logs = data.logs.filter(keep); const after = data.logs.length; saveData(data);\<close>
  with \<^verbatim>\<open>before - after\<close> as the count removed.\<close>

definition remove_logs :: "(json \<Rightarrow> js_error + bool) \<Rightarrow> disk \<Rightarrow> js_error + nat \<times> disk" where
  "remove_logs keep d =
     (let data = loadData d in
      case logs_array data of
        Inl e \<Rightarrow> Inl e
      | Inr logs \<Rightarrow>
          (case Array_filter keep logs of
             Inl e \<Rightarrow> Inl e
           | Inr kept \<Rightarrow>
               (case saveData (set_logs data kept) d of
                  Inl e \<Rightarrow> Inl e
                | Inr d' \<Rightarrow> Inr (length logs - length kept, d'))))"

text \<open>\<^verbatim>\<open>DELETE /api/logs/:ts\<close>, callback \<^verbatim>\<open>(l) => String(l.ts) !== String(ts)\<close>.\<close>

definition keep_ts :: "string \<Rightarrow> json \<Rightarrow> js_error + bool" where
  "keep_ts ts l =
     (case get (Some l) ''ts'' of
        Inl e \<Rightarrow> Inl e
      | Inr t \<Rightarrow>
          (case ToString t of
             Inl e \<Rightarrow> Inl e
           | Inr s \<Rightarrow>
               (case ToString (Some (JStr ts)) of
                  Inl e \<Rightarrow> Inl e
                | Inr s' \<Rightarrow> Inr (s \<noteq> s'))))"

definition delete_logs_ts :: "string \<Rightarrow> disk \<Rightarrow> response \<times> disk" where
  "delete_logs_ts ts d =
     (case remove_logs (keep_ts ts) d of
        Inl e \<Rightarrow> (Thrown e, d)
      | Inr (removed, d') \<Rightarrow>
          (Reply 200 (JObj [(''status'', JStr ''deleted''), (''ts'', JStr ts),
             (''removed'', JNum (int removed))]), d'))"

text \<open>\<^verbatim>\<open>DELETE /api/logs/:groupName\<close>, callback
  \<^verbatim>\<open>log => log.group.toLowerCase() !== decodeURIComponent(groupName).toLowerCase()\<close>.
  Only a string has \<^verbatim>\<open>toLowerCase\<close>: for any other \<open>group\<close>, a missing one included,
  the call throws a TypeError.\<close>

definition keep_group :: "string \<Rightarrow> json \<Rightarrow> js_error + bool" where
  "keep_group groupName log =
     (case get (Some log) ''group'' of
        Inl e \<Rightarrow> Inl e
      | Inr (Some (JStr g)) \<Rightarrow>
          (case decodeURIComponent groupName of
             Inl e \<Rightarrow> Inl e
           | Inr name \<Rightarrow> Inr (toLowerCase g \<noteq> toLowerCase name))
      | Inr _ \<Rightarrow> Inl TypeError)"

definition delete_logs_group :: "string \<Rightarrow> disk \<Rightarrow> response \<times> disk" where
  "delete_logs_group groupName d =
     (case remove_logs (keep_group groupName) d of
        Inl e \<Rightarrow> (Thrown e, d)
      | Inr (removed, d') \<Rightarrow>
          (case decodeURIComponent groupName of
             Inl e \<Rightarrow> (Thrown e, d')
           | Inr name \<Rightarrow>
               (Reply 200 (JObj [(''status'', JStr ''deleted''), (''groupName'', JStr name),
                  (''removed'', JNum (int removed))]), d')))"

text \<open>\<^verbatim>\<open>DELETE /api/logs/:groupName/:date\<close>. The callback, line by line:
  an entry of another date is kept; a \<^verbatim>\<open>group-create\<close> or \<^verbatim>\<open>group-delete\<close> entry is
  deleted; \<^verbatim>\<open>log.group && log.group.toLowerCase() === decodedGroupName.toLowerCase()\<close>
  deletes an entry of the group (and throws on a \<open>group\<close> that is neither false nor a
  string); \<^verbatim>\<open>!log.group || log.group.toLowerCase() === "unknowngroup"\<close> deletes an entry
  whose \<open>group\<close> is false or the unknown group; any other entry is kept.\<close>

definition keep_group_date :: "string \<Rightarrow> string \<Rightarrow> json \<Rightarrow> js_error + bool" where
  "keep_group_date decodedGroupName decodedDate log =
     (case get (Some log) ''date'' of
        Inl e \<Rightarrow> Inl e
      | Inr date \<Rightarrow>
          if date \<noteq> Some (JStr decodedDate) then Inr True
          else if field log ''type'' = Some (JStr ''group-create'')
                  \<or> field log ''type'' = Some (JStr ''group-delete'') then Inr False
          else if truthy (field log ''group'') then
            (case field log ''group'' of
               Some (JStr g) \<Rightarrow>
                 if toLowerCase g = toLowerCase decodedGroupName then Inr False
                 else if toLowerCase g = ''unknowngroup'' then Inr False
                 else Inr True
             | _ \<Rightarrow> Inl TypeError)
          else Inr False)"

definition delete_logs_group_date :: "string \<Rightarrow> string \<Rightarrow> disk \<Rightarrow> response \<times> disk" where
  "delete_logs_group_date groupName date d =
     (case decodeURIComponent groupName of
        Inl e \<Rightarrow> (Thrown e, d)
      | Inr decodedGroupName \<Rightarrow>
          (case decodeURIComponent date of
             Inl e \<Rightarrow> (Thrown e, d)
           | Inr decodedDate \<Rightarrow>
               (case remove_logs (keep_group_date decodedGroupName decodedDate) d of
                  Inl e \<Rightarrow> (Thrown e, d)
                | Inr (removed, d') \<Rightarrow>
                    (Reply 200 (JObj [(''status'', JStr ''deleted''),
                       (''groupName'', JStr decodedGroupName), (''date'', JStr decodedDate),
                       (''removed'', JNum (int removed))]), d'))))"

section \<open>Routing\<close>

text \<open>
  Express tries the routes in the order of their registration and runs the handler of
  the first one whose method and path pattern match; none of the handlers here calls
  \<^verbatim>\<open>next()\<close>, so no later route is tried. A path is the list of its segments. A
  literal segment of a pattern matches without regard to case, a parameter matches any
  one non-empty segment, and the parameter values are percent-decoded before the
  handler sees them. The routes are those of the draft and log interface, in the order
  of the source.
\<close>

datatype verb = GET | POST | DELETE

datatype segment = Literal string | Parameter string

datatype handler =
    Get_data | Get_draft | Post_save | Post_publish | Post_discard | Get_draft_status
  | Get_logs | Post_logs | Delete_logs_ts | Delete_logs_groupName
  | Delete_logs_groupName_date

definition routes :: "(verb \<times> segment list \<times> handler) list" where
  "routes =
    [(GET, [Literal ''api'', Literal ''data''], Get_data),
     (GET, [Literal ''api'', Literal ''draft''], Get_draft),
     (POST, [Literal ''api'', Literal ''save''], Post_save),
     (POST, [Literal ''api'', Literal ''publish''], Post_publish),
     (POST, [Literal ''api'', Literal ''discard''], Post_discard),
     (GET, [Literal ''api'', Literal ''draft-status''], Get_draft_status),
     (GET, [Literal ''api'', Literal ''logs''], Get_logs),
     (POST, [Literal ''api'', Literal ''logs''], Post_logs),
     (DELETE, [Literal ''api'', Literal ''logs'', Parameter ''ts''], Delete_logs_ts),
     (DELETE, [Literal ''api'', Literal ''logs'', Parameter ''groupName''], Delete_logs_groupName),
     (DELETE, [Literal ''api'', Literal ''logs'', Parameter ''groupName'', Parameter ''date''],
        Delete_logs_groupName_date)]"

fun match_path :: "segment list \<Rightarrow> string list \<Rightarrow> (string \<times> string) list option" where
  "match_path [] [] = Some []"
| "match_path (Literal l # ps) (s # ss) =
     (if toLowerCase s = toLowerCase l then match_path ps ss else None)"
| "match_path (Parameter n # ps) (s # ss) =
     (if s = [] then None else map_option ((#) (n, s)) (match_path ps ss))"
| "match_path ps ss = None"

fun find_route ::
  "(verb \<times> segment list \<times> handler) list \<Rightarrow> verb \<Rightarrow> string list
     \<Rightarrow> (handler \<times> (string \<times> string) list) option" where
  "find_route [] m path = None"
| "find_route ((m', pattern, h) # rs) m path =
     (if m' = m then
        (case match_path pattern path of
           Some params \<Rightarrow> Some (h, params)
         | None \<Rightarrow> find_route rs m path)
      else find_route rs m path)"

fun decode_params :: "(string \<times> string) list \<Rightarrow> js_error + (string \<times> string) list" where
  "decode_params [] = Inr []"
| "decode_params ((n, v) # ps) =
     (case decodeURIComponent v of
        Inl e \<Rightarrow> Inl e
      | Inr v' \<Rightarrow> (case decode_params ps of Inl e \<Rightarrow> Inl e | Inr ps' \<Rightarrow> Inr ((n, v') # ps')))"

definition param :: "(string \<times> string) list \<Rightarrow> string \<Rightarrow> string" where
  "param params n = (case map_of params n of Some v \<Rightarrow> v | None \<Rightarrow> [])"

fun run_handler :: "handler \<Rightarrow> (string \<times> string) list \<Rightarrow> json \<Rightarrow> disk \<Rightarrow> response \<times> disk" where
  "run_handler Get_data params body d = get_data d"
| "run_handler Get_draft params body d = get_draft d"
| "run_handler Post_save params body d = post_save body d"
| "run_handler Post_publish params body d = post_publish d"
| "run_handler Post_discard params body d = post_discard d"
| "run_handler Get_draft_status params body d = get_draft_status d"
| "run_handler Get_logs params body d = get_logs d"
| "run_handler Post_logs params body d = post_logs body d"
| "run_handler Delete_logs_ts params body d = delete_logs_ts (param params ''ts'') d"
| "run_handler Delete_logs_groupName params body d =
     delete_logs_group (param params ''groupName'') d"
| "run_handler Delete_logs_groupName_date params body d =
     delete_logs_group_date (param params ''groupName'') (param params ''date'') d"

definition serve :: "verb \<Rightarrow> string list \<Rightarrow> json \<Rightarrow> disk \<Rightarrow> response \<times> disk" where
  "serve m path body d =
     (case find_route routes m path of
        None \<Rightarrow> (Express_page 404, d)
      | Some (h, params) \<Rightarrow>
          (case decode_params params of
             Inl e \<Rightarrow> (Express_page 400, d)
           | Inr params' \<Rightarrow> run_handler h params' body d))"

section \<open>The notions of the specification\<close>

text \<open>Structural equality, as the specification words it: two documents are equal up
  to the order in which the members of their objects were inserted. \<open>canon\<close> sorts the
  members of every object by key.\<close>

fun canon :: "json \<Rightarrow> json" where
  "canon (JArr xs) = JArr (map canon xs)"
| "canon (JObj kvs) = JObj (sort_key fst (map (\<lambda>kv. (fst kv, canon (snd kv))) kvs))"
| "canon v = v"

definition struct_eq :: "json \<Rightarrow> json \<Rightarrow> bool" where
  "struct_eq a b = (canon a = canon b)"

text \<open>The logs of a document, and the identity of an entry: its \<open>ts\<close> as the server
  compares it, through \<^verbatim>\<open>String\<close>.\<close>

definition logs_of :: "json \<Rightarrow> json list" where
  "logs_of data = (case field data ''logs'' of Some (JArr logs) \<Rightarrow> logs | _ \<Rightarrow> [])"

definition ts_id :: "json \<Rightarrow> string" where
  "ts_id l = js_String (field l ''ts'')"

definition ts_unique :: "json list \<Rightarrow> bool" where
  "ts_unique logs = distinct (map ts_id logs)"


definition group_matches :: "string \<Rightarrow> json \<Rightarrow> bool" where
  "group_matches name l =
     (case field l ''group'' of
        Some (JStr g) \<Rightarrow> toLowerCase g = toLowerCase name
      | _ \<Rightarrow> False)"




text \<open>An entry whose \<open>ts\<close> the timestamp handler can turn into a string, and to the
  string JavaScript gives: the entry is not null, \<^verbatim>\<open>String\<close> does not throw on its
  \<open>ts\<close>, and the numbers in its \<open>ts\<close> are safe integers.\<close>

definition ts_ok :: "json \<Rightarrow> bool" where
  "ts_ok l =
     (l \<noteq> JNull
      \<and> (case field l ''ts'' of None \<Rightarrow> True | Some v \<Rightarrow> \<not> String_throws v \<and> safe_numbers v))"

text \<open>Uniqueness of \<open>ts\<close> in both documents.\<close>

definition ts_invariant :: "disk \<Rightarrow> bool" where
  "ts_invariant d = (ts_unique (logs_of (loadData d)) \<and> ts_unique (logs_of (loadDraft d)))"

section \<open>Example states\<close>

text \<open>A machine with no file yet, and one with the two documents in given states; every
  write is allowed.\<close>

definition fresh_disk :: disk where
  "fresh_disk = \<lparr>files = (\<lambda>p. Missing), write_denied = (\<lambda>p. False)\<rparr>"

definition disk_with :: "file_state \<Rightarrow> file_state \<Rightarrow> disk" where
  "disk_with published draft =
     \<lparr>files = (\<lambda>p. Missing)(DATA_FILE := published, DRAFT_FILE := draft),
      write_denied = (\<lambda>p. False)\<rparr>"

text \<open>A log entry with the four members of the data model, a disk whose published
  document has given logs and whose draft file is missing, and the four entries of the
  cascade scenario.\<close>

definition entry :: "int \<Rightarrow> string \<Rightarrow> string \<Rightarrow> string \<Rightarrow> json" where
  "entry ts date grp tag =
     JObj [(''ts'', JNum ts), (''date'', JStr date), (''group'', JStr grp), (''type'', JStr tag)]"

definition published_logs :: "json list \<Rightarrow> disk" where
  "published_logs logs =
     disk_with (Content (Json (JObj [(''groups'', JArr []), (''logs'', JArr logs)]))) Missing"

definition cascade_logs :: "json list" where
  "cascade_logs =
     [entry 1 ''2024-01-01'' ''A'' ''signin'', entry 2 ''2024-01-01'' ''X'' ''group-create'',
      entry 3 ''2024-01-01'' ''B'' ''signin'', entry 4 ''2024-01-02'' ''A'' ''signin'']"

section \<open>Notions used in the proofs\<close>

text \<open>Reading one escaped character back, the value of a decimal numeral, the
  characters a number is written with, the characters that can follow a serialised
  value inside an array or an object, and the kind of value a serialisation starts
  like. They serve the proof that \<^verbatim>\<open>JSON.stringify\<close> is injective.\<close>

definition hex_val :: "char \<Rightarrow> nat" where
  "hex_val c = (let n = (of_char c :: nat) in if n < 58 then n - 48 else n - 87)"

fun unescape_hd :: "string \<Rightarrow> (char \<times> string) option" where
  "unescape_hd [] = None"
| "unescape_hd (x # xs) =
     (if x \<noteq> CHR 0x5C then Some (x, xs)
      else case xs of
        [] \<Rightarrow> None
      | k # ys \<Rightarrow>
          if k = CHR ''b'' then Some (char_of (8 :: nat), ys)
          else if k = CHR ''t'' then Some (char_of (9 :: nat), ys)
          else if k = CHR ''n'' then Some (char_of (10 :: nat), ys)
          else if k = CHR ''f'' then Some (char_of (12 :: nat), ys)
          else if k = CHR ''r'' then Some (char_of (13 :: nat), ys)
          else if k = CHR ''u'' then
            (case ys of
               a # b # h # l # zs \<Rightarrow> Some (char_of (16 * hex_val h + hex_val l), zs)
             | _ \<Rightarrow> None)
          else Some (k, ys))"

definition num_char :: "char \<Rightarrow> bool" where
  "num_char c = (c = CHR ''-'' \<or> (48 \<le> (of_char c :: nat) \<and> (of_char c :: nat) \<le> 57))"

definition delim :: "string \<Rightarrow> bool" where
  "delim r = (case r of [] \<Rightarrow> True | c # cs \<Rightarrow> c = CHR '','' \<or> c = CHR '']'' \<or> c = CHR ''}'')"

definition dec_val :: "string \<Rightarrow> nat" where
  "dec_val s = foldl (\<lambda>a c. 10 * a + (of_char c - 48)) 0 s"

definition open_char :: "char \<Rightarrow> bool" where
  "open_char c = (c \<noteq> CHR '','' \<and> c \<noteq> CHR '']'' \<and> c \<noteq> CHR ''}'')"

datatype kind = KNull | KBool | KNum | KStr | KArr | KObj

fun kind_of :: "json \<Rightarrow> kind" where
  "kind_of JNull = KNull"
| "kind_of (JBool b) = KBool"
| "kind_of (JNum n) = KNum"
| "kind_of (JStr s) = KStr"
| "kind_of (JArr xs) = KArr"
| "kind_of (JObj kvs) = KObj"

definition kind_of_char :: "char \<Rightarrow> kind" where
  "kind_of_char c =
     (if c = CHR ''n'' then KNull
      else if c = CHR ''t'' \<or> c = CHR ''f'' then KBool
      else if c = CHR 0x22 then KStr
      else if c = CHR ''['' then KArr
      else if c = CHR ''{'' then KObj
      else KNum)"

section \<open>\<^verbatim>\<open>JSON.stringify\<close> is injective\<close>

text \<open>A serialisation followed by a delimiter (or by nothing) determines the value and
  the rest: no serialisation is a proper prefix of another one in that position.\<close>

lemma char_of_of_char_nat: "of_char c = (n :: nat) \<Longrightarrow> char_of n = c"
  by auto

lemma hex_val_hex_char: "k < 16 \<Longrightarrow> hex_val (hex_char k) = k"
  by (simp add: hex_val_def hex_char_def Let_def)

lemma hex_val_pair: "n < 32 \<Longrightarrow> 16 * hex_val (hex_char (n div 16)) + hex_val (hex_char (n mod 16)) = n"
  by (simp add: hex_val_hex_char)

lemma unescape_hd_escape_char: "unescape_hd (escape_char c @ u) = Some (c, u)"
proof -
  define n where "n = (of_char c :: nat)"
  have c: "char_of n = c" by (simp add: n_def)
  consider "n = 8" | "n = 9" | "n = 10" | "n = 12" | "n = 13" | "n = 34" | "n = 92"
    | "n < 32" "n \<notin> {8, 9, 10, 12, 13}" | "32 \<le> n" "n \<noteq> 34" "n \<noteq> 92"
    by fastforce
  then show ?thesis
  proof cases
    case 8
    then have "escape_char c = [CHR 0x5C, CHR ''u'', CHR ''0'', CHR ''0'', hex_char (n div 16), hex_char (n mod 16)]"
      by (simp add: escape_char_def n_def [symmetric])
    then show ?thesis using 8 c by (simp add: hex_val_pair)
  next
    case 9
    then have "c \<noteq> CHR 0x5C" by (auto simp: n_def)
    moreover have "escape_char c = [c]" using 9 by (simp add: escape_char_def n_def [symmetric])
    ultimately show ?thesis by simp
  next
    case 6
    have "char_of (34 :: nat) = CHR 0x22" by (rule char_of_of_char_nat) simp
    with 6 c have "c = CHR 0x22" by simp
    then show ?thesis by (simp add: escape_char_def)
  next
    case 7
    have "char_of (92 :: nat) = CHR 0x5C" by (rule char_of_of_char_nat) simp
    with 7 c have "c = CHR 0x5C" by simp
    then show ?thesis by (simp add: escape_char_def)
  qed (use c in \<open>auto simp: escape_char_def n_def [symmetric]\<close>)
qed

lemma escape_char_prefix:
  assumes "escape_char c @ u = escape_char c' @ u'"
  shows "c = c' \<and> u = u'"
proof -
  have "unescape_hd (escape_char c @ u) = unescape_hd (escape_char c' @ u')"
    using assms by simp
  then show ?thesis by (simp add: unescape_hd_escape_char)
qed

lemma escape_char_hd: "\<exists>x xs. escape_char c = x # xs \<and> x \<noteq> CHR 0x22"
  unfolding escape_char_def Let_def by auto

lemma escaped_prefix:
  "concat (map escape_char s) @ CHR 0x22 # r = concat (map escape_char t) @ CHR 0x22 # r'
     \<Longrightarrow> s = t \<and> r = r'"
proof (induction s arbitrary: t)
  case Nil
  show ?case
  proof (cases t)
    case Nil
    with Nil.prems show ?thesis by simp
  next
    case (Cons c t')
    obtain x xs where "escape_char c = x # xs" "x \<noteq> CHR 0x22"
      using escape_char_hd by blast
    with Nil.prems Cons show ?thesis by simp
  qed
next
  case (Cons c s)
  show ?case
  proof (cases t)
    case Nil
    obtain x xs where "escape_char c = x # xs" "x \<noteq> CHR 0x22"
      using escape_char_hd by blast
    with Cons.prems Nil show ?thesis by simp
  next
    case (Cons c' t')
    with Cons.prems have
      "escape_char c @ (concat (map escape_char s) @ CHR 0x22 # r)
        = escape_char c' @ (concat (map escape_char t') @ CHR 0x22 # r')"
      by simp
    then have "c = c'" and "concat (map escape_char s) @ CHR 0x22 # r = concat (map escape_char t') @ CHR 0x22 # r'"
      using escape_char_prefix by blast+
    with Cons.IH Cons show ?thesis by blast
  qed
qed

lemma QuoteJSONString_prefix:
  "QuoteJSONString s @ r = QuoteJSONString t @ r' \<Longrightarrow> s = t \<and> r = r'"
  using escaped_prefix [of s r t r'] by (simp add: QuoteJSONString_def)

lemma digit_char_val: "n < 10 \<Longrightarrow> (of_char (digit_char n) :: nat) = 48 + n"
  by (simp add: digit_char_def)

lemma dec_val_decimal: "dec_val (decimal n) = n"
proof (induction n rule: decimal.induct)
  case (1 n)
  show ?case
  proof (cases "n < 10")
    case True
    then show ?thesis by (simp add: decimal.simps [of n] dec_val_def digit_char_val)
  next
    case False
    with 1 have "dec_val (decimal (n div 10)) = n div 10" by simp
    with False show ?thesis
      by (simp add: decimal.simps [of n] dec_val_def digit_char_val)
  qed
qed

lemma decimal_inj: "decimal m = decimal n \<Longrightarrow> m = n"
  by (metis dec_val_decimal)

lemma decimal_chars: "c \<in> set (decimal n) \<Longrightarrow> num_char c \<and> c \<noteq> CHR ''-''"
proof (induction n rule: decimal.induct)
  case (1 n)
  have d: "num_char (digit_char k) \<and> digit_char k \<noteq> CHR ''-''" if "k < 10" for k
  proof -
    have v: "(of_char (digit_char k) :: nat) = 48 + k"
      using that by (rule digit_char_val)
    have "digit_char k \<noteq> CHR ''-''"
    proof
      assume "digit_char k = CHR ''-''"
      then have "(of_char (digit_char k) :: nat) = of_char (CHR ''-'')" by simp
      with v show False by simp
    qed
    with v that show ?thesis by (simp add: num_char_def)
  qed
  show ?case
  proof (cases "n < 10")
    case True
    with "1.prems" d show ?thesis by (simp add: decimal.simps [of n])
  next
    case False
    with "1.prems" have "c \<in> set (decimal (n div 10)) \<or> c = digit_char (n mod 10)"
      by (auto simp: decimal.simps [of n])
    with 1 False d show ?thesis by auto
  qed
qed

lemma decimal_nonempty: "decimal n \<noteq> []"
  by (simp add: decimal.simps [of n])

lemma Number_toString_chars: "c \<in> set (Number_toString n) \<Longrightarrow> num_char c"
  using decimal_chars by (auto simp: Number_toString_def num_char_def split: if_splits)

lemma Number_toString_nonempty: "Number_toString n \<noteq> []"
  by (simp add: Number_toString_def decimal_nonempty)

lemma Number_toString_inj:
  assumes "Number_toString m = Number_toString n"
  shows "m = n"
proof -
  have hd: "\<And>k. hd (decimal k) \<noteq> CHR ''-''"
    using decimal_chars decimal_nonempty by (metis hd_in_set)
  then have nd: "\<And>k xs. decimal k \<noteq> CHR ''-'' # xs \<and> CHR ''-'' # xs \<noteq> decimal k"
    by (metis list.sel(1))
  show ?thesis
  proof (cases "m < 0"; cases "n < 0")
    assume "m < 0" "n < 0"
    with assms have "nat (- m) = nat (- n)"
      by (auto simp: Number_toString_def dest: decimal_inj)
    with \<open>m < 0\<close> \<open>n < 0\<close> show ?thesis by simp
  next
    assume "m < 0" "\<not> n < 0"
    with assms nd show ?thesis by (auto simp: Number_toString_def)
  next
    assume "\<not> m < 0" "n < 0"
    with assms nd show ?thesis by (auto simp: Number_toString_def)
  next
    assume "\<not> m < 0" "\<not> n < 0"
    with assms have "nat m = nat n"
      by (auto simp: Number_toString_def dest: decimal_inj)
    with \<open>\<not> m < 0\<close> \<open>\<not> n < 0\<close> show ?thesis by simp
  qed
qed

lemma takeWhile_span:
  assumes "\<forall>c\<in>set xs. P c" "r = [] \<or> \<not> P (hd r)"
  shows "takeWhile P (xs @ r) = xs"
  using assms by (cases r) (auto simp: takeWhile_append)

lemma delim_not_num: "delim r \<Longrightarrow> r = [] \<or> \<not> num_char (hd r)"
  by (auto simp: delim_def num_char_def split: list.splits)

lemma Number_toString_prefix:
  assumes "Number_toString m @ r = Number_toString n @ s" "delim r" "delim s"
  shows "m = n \<and> r = s"
proof -
  have "takeWhile num_char (Number_toString m @ r) = Number_toString m"
    using assms(2) by (intro takeWhile_span delim_not_num) (auto dest: Number_toString_chars)
  moreover have "takeWhile num_char (Number_toString n @ s) = Number_toString n"
    using assms(3) by (intro takeWhile_span delim_not_num) (auto dest: Number_toString_chars)
  ultimately have "Number_toString m = Number_toString n"
    using assms(1) by simp
  with assms(1) show ?thesis by (simp add: Number_toString_inj)
qed

lemma commas_Cons: "commas (x # xs) = x @ (if xs = [] then [] else CHR '','' # commas xs)"
  by (cases xs) simp_all

lemma delim_simps [simp]:
  "delim []" "delim (CHR '','' # r)" "delim (CHR '']'' # r)" "delim (CHR ''}'' # r)"
  by (simp_all add: delim_def)

lemma commas_prefix:
  assumes el: "\<And>x y r s. x \<in> set xs \<Longrightarrow> f x @ r = f y @ s \<Longrightarrow> delim r \<Longrightarrow> delim s \<Longrightarrow> x = y \<and> r = s"
    and hd: "\<And>x. \<exists>c cs. f x = c # cs \<and> open_char c"
    and e: "e = CHR '']'' \<or> e = CHR ''}''"
    and eq: "commas (map f xs) @ e # r = commas (map f ys) @ e # s"
  shows "xs = ys \<and> r = s"
  using el eq
proof (induction xs arbitrary: ys)
  case Nil
  show ?case
  proof (cases ys)
    case Nil
    with Nil.prems show ?thesis by simp
  next
    case (Cons y ys')
    obtain c cs where "f y = c # cs" "open_char c" using hd by blast
    with Nil.prems(2) Cons e show ?thesis by (auto simp: commas_Cons open_char_def)
  qed
next
  case (Cons x xs)
  show ?case
  proof (cases ys)
    case Nil
    obtain c cs where "f x = c # cs" "open_char c" using hd by blast
    with Cons.prems(2) Nil e show ?thesis by (auto simp: commas_Cons open_char_def)
  next
    case ys: (Cons y ys')
    define R1 where "R1 = (if xs = [] then [] else CHR '','' # commas (map f xs)) @ e # r"
    define R2 where "R2 = (if ys' = [] then [] else CHR '','' # commas (map f ys')) @ e # s"
    have "f x @ R1 = f y @ R2"
      using Cons.prems(2) ys by (simp add: commas_Cons R1_def R2_def)
    moreover have "delim R1" "delim R2"
      using e by (auto simp: R1_def R2_def)
    ultimately have xy: "x = y" and R: "R1 = R2"
      using Cons.prems(1) by (meson list.set_intros(1))+
    have "xs = ys' \<and> r = s"
    proof (cases "xs = []"; cases "ys' = []")
      assume "xs \<noteq> []" "ys' \<noteq> []"
      with R have "commas (map f xs) @ e # r = commas (map f ys') @ e # s"
        by (simp add: R1_def R2_def)
      moreover have "x' = y' \<and> r' = s'"
        if "x' \<in> set xs" "f x' @ r' = f y' @ s'" "delim r'" "delim s'" for x' y' r' s'
        using Cons.prems(1) that by (meson list.set_intros(2))
      ultimately show ?thesis by (rule Cons.IH [rotated])
    qed (use R e in \<open>auto simp: R1_def R2_def\<close>)
    with xy ys show ?thesis by simp
  qed
qed

lemma Quote_hd: "\<exists>cs. QuoteJSONString s = CHR 0x22 # cs"
  by (simp add: QuoteJSONString_def)

lemma Number_hd: "\<exists>c cs. Number_toString n = c # cs \<and> num_char c"
  using Number_toString_chars [of _ n] Number_toString_nonempty [of n]
  by (cases "Number_toString n") auto

lemma JSON_stringify_hd: "\<exists>c cs. JSON_stringify v = c # cs \<and> open_char c"
proof (cases v)
  case (JNum n)
  obtain c cs where "Number_toString n = c # cs" "num_char c" using Number_hd by blast
  with JNum show ?thesis by (auto simp: open_char_def num_char_def)
next
  case (JStr s)
  with Quote_hd [of s] show ?thesis by (auto simp: open_char_def)
qed (auto simp: open_char_def)

lemma member_hd: "\<exists>c cs. QuoteJSONString k @ CHR '':'' # JSON_stringify v = c # cs \<and> open_char c"
  using Quote_hd [of k] by (auto simp: open_char_def)

lemma JSON_stringify_nonempty: "JSON_stringify v \<noteq> []"
  using JSON_stringify_hd [of v] by auto

lemma Number_hd_neq: "\<not> num_char c \<Longrightarrow> hd (Number_toString n) \<noteq> c"
  using Number_hd [of n] by auto

lemma Quote_hd_eq: "hd (QuoteJSONString s) = CHR 0x22"
  by (simp add: QuoteJSONString_def)

lemma not_num_char:
  "\<not> num_char (CHR ''n'')" "\<not> num_char (CHR ''t'')" "\<not> num_char (CHR ''f'')"
  "\<not> num_char (CHR 0x22)" "\<not> num_char (CHR ''['')" "\<not> num_char (CHR ''{'')"
  by (simp_all add: num_char_def)

lemma kind_of_hd: "kind_of a = kind_of_char (hd (JSON_stringify a))"
proof (cases a)
  case (JNum n)
  then show ?thesis
    using not_num_char [THEN Number_hd_neq, of n] by (simp add: kind_of_char_def)
qed (simp_all add: kind_of_char_def Quote_hd_eq)

lemma hd_kind:
  assumes "hd (JSON_stringify a) = hd (JSON_stringify b)"
  shows "kind_of a = kind_of b"
  using assms by (simp add: kind_of_hd)

lemma append_hd_eq: "xs @ r = ys @ s \<Longrightarrow> xs \<noteq> [] \<Longrightarrow> ys \<noteq> [] \<Longrightarrow> hd xs = hd ys"
  by (metis hd_append2)

lemma prefix_kind:
  assumes "JSON_stringify a @ r = JSON_stringify b @ s"
  shows "kind_of a = kind_of b"
  using assms by (intro hd_kind append_hd_eq JSON_stringify_nonempty)

lemma JArr_step:
  assumes IH: "\<And>x y r' s'. x \<in> set xs \<Longrightarrow> JSON_stringify x @ r' = JSON_stringify y @ s'
      \<Longrightarrow> delim r' \<Longrightarrow> delim s' \<Longrightarrow> x = y \<and> r' = s'"
    and eq: "JSON_stringify (JArr xs) @ r = JSON_stringify (JArr ys) @ s"
  shows "xs = ys \<and> r = s"
proof -
  from eq have
    "commas (map JSON_stringify xs) @ CHR '']'' # r = commas (map JSON_stringify ys) @ CHR '']'' # s"
    by simp
  with IH JSON_stringify_hd show ?thesis
    by (rule commas_prefix [where f = JSON_stringify and e = "CHR '']''", OF _ _ disjI1 [OF refl]])
qed

lemma member_prefix:
  assumes IH: "\<And>r' s' w. JSON_stringify v @ r' = JSON_stringify w @ s'
      \<Longrightarrow> delim r' \<Longrightarrow> delim s' \<Longrightarrow> v = w \<and> r' = s'"
    and eq: "(QuoteJSONString k @ CHR '':'' # JSON_stringify v) @ r
           = (QuoteJSONString k' @ CHR '':'' # JSON_stringify v') @ s"
    and d: "delim r" "delim s"
  shows "(k, v) = (k', v') \<and> r = s"
proof -
  from eq have
    "QuoteJSONString k @ (CHR '':'' # JSON_stringify v @ r)
      = QuoteJSONString k' @ (CHR '':'' # JSON_stringify v' @ s)"
    by simp
  then have "k = k'" and "CHR '':'' # JSON_stringify v @ r = CHR '':'' # JSON_stringify v' @ s"
    using QuoteJSONString_prefix by blast+
  then have "k = k'" and "JSON_stringify v @ r = JSON_stringify v' @ s"
    by simp_all
  with IH d show ?thesis by blast
qed

lemma JObj_step:
  assumes IH: "\<And>kv v w r' s'. kv \<in> set kvs \<Longrightarrow> v \<in> Basic_BNFs.snds kv \<Longrightarrow>
      JSON_stringify v @ r' = JSON_stringify w @ s' \<Longrightarrow> delim r' \<Longrightarrow> delim s' \<Longrightarrow> v = w \<and> r' = s'"
    and eq: "JSON_stringify (JObj kvs) @ r = JSON_stringify (JObj kvs') @ s"
  shows "kvs = kvs' \<and> r = s"
proof -
  let ?m = "\<lambda>kv. QuoteJSONString (fst kv) @ CHR '':'' # JSON_stringify (snd kv)"
  have el: "kv = kv' \<and> r' = s'"
    if "kv \<in> set kvs" "?m kv @ r' = ?m kv' @ s'" "delim r'" "delim s'" for kv kv' r' s'
  proof -
    obtain k v k' v' where kv: "kv = (k, v)" "kv' = (k', v')"
      by (cases kv, cases kv') blast
    have "(k, v) = (k', v') \<and> r' = s'"
    proof (rule member_prefix)
      show "v = w \<and> r'' = s''"
        if "JSON_stringify v @ r'' = JSON_stringify w @ s''" "delim r''" "delim s''" for r'' s'' w
        using IH [of kv v r'' w s''] that \<open>kv \<in> set kvs\<close> kv by simp
      show "(QuoteJSONString k @ CHR '':'' # JSON_stringify v) @ r'
           = (QuoteJSONString k' @ CHR '':'' # JSON_stringify v') @ s'"
        using that(2) kv by simp
    qed fact+
    with kv show ?thesis by simp
  qed
  from eq have
    "commas (map ?m kvs) @ CHR ''}'' # r = commas (map ?m kvs') @ CHR ''}'' # s"
    by simp
  with el member_hd show ?thesis
    by (rule commas_prefix [where f = ?m and e = "CHR ''}''", OF _ _ disjI2 [OF refl]])
qed

lemma JSON_stringify_prefix:
  "JSON_stringify a @ r = JSON_stringify b @ s \<Longrightarrow> delim r \<Longrightarrow> delim s \<Longrightarrow> a = b \<and> r = s"
proof (induction a arbitrary: b r s)
  case JNull
  from prefix_kind [OF JNull.prems(1)] have "b = JNull" by (cases b) simp_all
  with JNull.prems(1) show ?case by simp
next
  case (JBool x)
  from prefix_kind [OF JBool.prems(1)] obtain y where "b = JBool y" by (cases b) simp_all
  with JBool.prems(1) show ?case by (cases x; cases y) simp_all
next
  case (JNum n)
  from prefix_kind [OF JNum.prems(1)] obtain m where "b = JNum m" by (cases b) simp_all
  with JNum.prems Number_toString_prefix [of n r m s] show ?case by simp
next
  case (JStr t)
  from prefix_kind [OF JStr.prems(1)] obtain u where "b = JStr u" by (cases b) simp_all
  with JStr.prems QuoteJSONString_prefix [of t r u s] show ?case by simp
next
  case (JArr xs)
  from prefix_kind [OF JArr.prems(1)] obtain ys where b: "b = JArr ys" by (cases b) simp_all
  have "xs = ys \<and> r = s"
  proof (rule JArr_step)
    show "JSON_stringify (JArr xs) @ r = JSON_stringify (JArr ys) @ s"
      using JArr.prems(1) unfolding b .
  qed (rule JArr.IH)
  with b show ?case by simp
next
  case (JObj kvs)
  from prefix_kind [OF JObj.prems(1)] obtain kvs' where b: "b = JObj kvs'" by (cases b) simp_all
  have "kvs = kvs' \<and> r = s"
  proof (rule JObj_step)
    show "JSON_stringify (JObj kvs) @ r = JSON_stringify (JObj kvs') @ s"
      using JObj.prems(1) unfolding b .
  qed (rule JObj.IH)
  with b show ?case by simp
qed

lemma JSON_stringify_inj: "JSON_stringify a = JSON_stringify b \<longleftrightarrow> a = b"
  using JSON_stringify_prefix [of a "[]" b "[]"] by auto

section \<open>Loading, saving and the two handlers that copy a document\<close>

lemma paths_distinct: "DATA_FILE \<noteq> DRAFT_FILE" "DRAFT_FILE \<noteq> DATA_FILE"
  by (simp_all add: DATA_FILE_def DRAFT_FILE_def)

lemma saveData_eq:
  "saveData data d =
     (if write_denied d DATA_FILE then Inl EACCES
      else Inr (d\<lparr>files := (files d)(DATA_FILE := Content (Json data))\<rparr>))"
  by (simp add: saveData_def saveData_calls_def JSON_stringify_indented_def)

lemma saveDraft_eq:
  "saveDraft data d =
     (if write_denied d DRAFT_FILE then Inl EACCES
      else Inr (d\<lparr>files := (files d)(DRAFT_FILE := Content (Json data))\<rparr>))"
  by (simp add: saveDraft_def saveDraft_calls_def JSON_stringify_indented_def)

lemma loadData_written [simp]:
  "loadData (d\<lparr>files := (files d)(DATA_FILE := Content (Json v))\<rparr>) = v"
  by (simp add: loadData_def readFileSync_def or_default_def)

lemma loadData_other [simp]:
  "p \<noteq> DATA_FILE \<Longrightarrow> loadData (d\<lparr>files := (files d)(p := x)\<rparr>) = loadData d"
  by (simp add: loadData_def readFileSync_def)

lemma loadDraft_written [simp]:
  "loadDraft (d\<lparr>files := (files d)(DRAFT_FILE := Content (Json v))\<rparr>) = v"
  by (simp add: loadDraft_def readFileSync_def or_default_def)

lemma loadDraft_cases:
  "loadDraft d =
     (case files d DRAFT_FILE of
        Content (Json v) \<Rightarrow> v
      | Content Empty \<Rightarrow> empty_snapshot
      | _ \<Rightarrow> loadData d)"
  by (simp add: loadDraft_def readFileSync_def or_default_def split: file_state.splits raw.splits)

lemma loadDraft_data_written:
  "loadDraft (d\<lparr>files := (files d)(DATA_FILE := Content (Json v))\<rparr>) =
     (case files d DRAFT_FILE of
        Content (Json w) \<Rightarrow> w
      | Content Empty \<Rightarrow> empty_snapshot
      | _ \<Rightarrow> v)"
  by (simp add: loadDraft_cases paths_distinct split: file_state.splits raw.splits)

lemma post_publish_eq:
  "post_publish d =
     (if write_denied d DATA_FILE
      then (Reply 500 (JObj [(''error'', JStr (''Publish failed: '' @ message EACCES))]), d)
      else (Reply 200 (JObj [(''status'', JStr ''ok''), (''message'', JStr ''Published successfully'')]),
            d\<lparr>files := (files d)(DATA_FILE := Content (Json (loadDraft d)))\<rparr>))"
  by (simp add: post_publish_def saveData_eq)

lemma post_discard_eq:
  "post_discard d =
     (if write_denied d DRAFT_FILE
      then (Reply 500 (JObj [(''error'', JStr (''Discard failed: '' @ message EACCES))]), d)
      else (Reply 200 (JObj [(''status'', JStr ''ok''), (''message'', JStr ''Draft discarded'')]),
            d\<lparr>files := (files d)(DRAFT_FILE := Content (Json (loadData d)))\<rparr>))"
  by (simp add: post_discard_def saveDraft_eq)

lemma loadDraft_after_publish:
  "loadDraft (d\<lparr>files := (files d)(DATA_FILE := Content (Json (loadDraft d)))\<rparr>) = loadDraft d"
  by (simp add: loadDraft_data_written) (simp add: loadDraft_cases split: file_state.splits raw.splits)

lemma canon_refl: "struct_eq a a"
  by (simp add: struct_eq_def)


lemma disk_with_files [simp]:
  "files (disk_with a b) DATA_FILE = a" "files (disk_with a b) DRAFT_FILE = b"
  "write_denied (disk_with a b) p = False"
  by (simp_all add: disk_with_def paths_distinct)

lemma disk_with_written:
  "(disk_with a b)\<lparr>files := (files (disk_with a b))(DATA_FILE := c)\<rparr> = disk_with c b"
  "(disk_with a b)\<lparr>files := (files (disk_with a b))(DRAFT_FILE := c)\<rparr> = disk_with a c"
  by (auto simp: disk_with_def fun_eq_iff paths_distinct)

lemma loadData_cases:
  "loadData d = (case files d DATA_FILE of Content (Json v) \<Rightarrow> v | _ \<Rightarrow> empty_snapshot)"
  by (simp add: loadData_def readFileSync_def or_default_def split: file_state.splits raw.splits)


subsection \<open>Falling back to the published document\<close>

text \<open>
  Claim C5, as amended. When \<^verbatim>\<open>draft.json\<close> is missing, cannot be read, or holds a
  non-empty text that does not parse, \<open>loadDraft\<close> returns what \<open>loadData\<close> returns.
  A draft file of length zero is not such a case: \<^verbatim>\<open>raw || default\<close> replaces the
  empty text by the default, and \<open>loadDraft\<close> returns the empty snapshot. Nothing is
  thrown in either case: \<open>loadDraft\<close> is a total function. When the module is loaded
  with no draft file, the draft is created as a copy of the published document, so the
  two are equal (and so structurally equal) afterwards.
\<close>

theorem loadDraft_fallback:
  "(files d DRAFT_FILE = Missing \<or> files d DRAFT_FILE = Unreadable
      \<or> files d DRAFT_FILE = Content Malformed \<longrightarrow> loadDraft d = loadData d)
   \<and> (files d DRAFT_FILE = Content Empty \<longrightarrow> loadDraft d = empty_snapshot)
   \<and> (files d DRAFT_FILE = Missing \<and> startup d = Inr d' \<longrightarrow>
        loadDraft d' = loadData d' \<and> struct_eq (loadDraft d') (loadData d'))"
proof (intro conjI impI)
  assume "files d DRAFT_FILE = Missing \<or> files d DRAFT_FILE = Unreadable
      \<or> files d DRAFT_FILE = Content Malformed"
  then show "loadDraft d = loadData d" by (auto simp: loadDraft_cases)
next
  assume "files d DRAFT_FILE = Content Empty"
  then show "loadDraft d = empty_snapshot" by (simp add: loadDraft_cases)
next
  assume a: "files d DRAFT_FILE = Missing \<and> startup d = Inr d'"
  then show eq: "loadDraft d' = loadData d'"
    by (auto simp: startup_def existsSync_def JSON_stringify_indented_def paths_distinct
        loadDraft_cases loadData_cases split: if_splits)
  then show "struct_eq (loadDraft d') (loadData d')" by (simp add: canon_refl)
qed


text \<open>The theorem at a missing draft file, at an empty one, and at a first start.\<close>

theorem loadDraft_fallback_witness:
  "loadDraft (disk_with (Content (Json (JObj [(''groups'', JArr [JStr ''A'']), (''logs'', JArr [])]))) Missing)
     = JObj [(''groups'', JArr [JStr ''A'']), (''logs'', JArr [])]
   \<and> loadDraft (disk_with (Content (Json (JObj [(''groups'', JArr [JStr ''A'']), (''logs'', JArr [])]))) (Content Empty))
     = empty_snapshot
   \<and> (\<exists>d'. startup fresh_disk = Inr d' \<and> loadDraft d' = loadData d')"
proof -
  let ?pub = "Content (Json (JObj [(''groups'', JArr [JStr ''A'']), (''logs'', JArr [])]))"
  have s: "startup fresh_disk = Inr (disk_with (Content (Json empty_snapshot)) (Content (Json empty_snapshot)))"
    by (simp add: startup_def fresh_disk_def existsSync_def disk_with_def JSON_stringify_indented_def
        paths_distinct loadData_cases)
  have m: "files fresh_disk DRAFT_FILE = Missing" by (simp add: fresh_disk_def)
  show ?thesis
    using loadDraft_fallback [of "disk_with ?pub Missing"]
      loadDraft_fallback [of "disk_with ?pub (Content Empty)"]
      loadDraft_fallback [of fresh_disk "disk_with (Content (Json empty_snapshot)) (Content (Json empty_snapshot))"]
      s m
    by (simp add: loadData_cases)
qed


text \<open>Claim C5 as stated fails at a draft file of length zero, whose content does not
  parse: with a published document that has a group, \<open>loadDraft\<close> returns the empty
  snapshot and not the published document.\<close>

theorem loadDraft_empty_file_counterexample:
  "loadDraft (disk_with (Content (Json (JObj [(''groups'', JArr [JStr ''A'']), (''logs'', JArr [])]))) (Content Empty))
     = empty_snapshot
   \<and> loadDraft (disk_with (Content (Json (JObj [(''groups'', JArr [JStr ''A'']), (''logs'', JArr [])]))) (Content Empty))
     \<noteq> loadData (disk_with (Content (Json (JObj [(''groups'', JArr [JStr ''A'']), (''logs'', JArr [])]))) (Content Empty))"
  by (simp add: loadDraft_cases loadData_cases empty_snapshot_def)

subsection \<open>Publishing\<close>

text \<open>
  Claim C6. When \<^verbatim>\<open>POST /api/publish\<close> answers 200, the published document read
  afterwards is the draft as it was read when publishing, hence structurally equal to
  it. A second publish right after the first leaves the published document, and the
  whole disk, as the first one left it.
\<close>

theorem publish_copies_draft:
  "(post_publish d = (Reply 200 b, d') \<longrightarrow>
      loadData d' = loadDraft d \<and> struct_eq (loadData d') (loadDraft d))
   \<and> loadData (snd (post_publish (snd (post_publish d)))) = loadData (snd (post_publish d))
   \<and> snd (post_publish (snd (post_publish d))) = snd (post_publish d)"
proof (intro conjI impI)
  assume "post_publish d = (Reply 200 b, d')"
  then have d': "d' = d\<lparr>files := (files d)(DATA_FILE := Content (Json (loadDraft d)))\<rparr>"
    by (simp add: post_publish_eq split: if_splits)
  then show "loadData d' = loadDraft d" by simp
  then show "struct_eq (loadData d') (loadDraft d)" by (simp add: canon_refl)
next
  show twice: "snd (post_publish (snd (post_publish d))) = snd (post_publish d)"
    by (simp add: post_publish_eq loadDraft_after_publish)
  then show "loadData (snd (post_publish (snd (post_publish d)))) = loadData (snd (post_publish d))"
    by simp
qed

text \<open>The theorem at a disk whose draft has one more group than the published
  document.\<close>

theorem publish_copies_draft_witness:
  "post_publish (disk_with (Content (Json empty_snapshot))
       (Content (Json (JObj [(''groups'', JArr [JStr ''A'']), (''logs'', JArr [])]))))
     = (Reply 200 (JObj [(''status'', JStr ''ok''), (''message'', JStr ''Published successfully'')]),
        disk_with (Content (Json (JObj [(''groups'', JArr [JStr ''A'']), (''logs'', JArr [])])))
          (Content (Json (JObj [(''groups'', JArr [JStr ''A'']), (''logs'', JArr [])]))))
   \<and> loadData (disk_with (Content (Json (JObj [(''groups'', JArr [JStr ''A'']), (''logs'', JArr [])])))
          (Content (Json (JObj [(''groups'', JArr [JStr ''A'']), (''logs'', JArr [])]))))
       = loadDraft (disk_with (Content (Json empty_snapshot))
          (Content (Json (JObj [(''groups'', JArr [JStr ''A'']), (''logs'', JArr [])]))))"
proof -
  let ?new = "JObj [(''groups'', JArr [JStr ''A'']), (''logs'', JArr [])]"
  let ?d = "disk_with (Content (Json empty_snapshot)) (Content (Json ?new))"
  let ?d' = "disk_with (Content (Json ?new)) (Content (Json ?new))"
  let ?b = "JObj [(''status'', JStr ''ok''), (''message'', JStr ''Published successfully'')]"
  have p: "post_publish ?d = (Reply 200 ?b, ?d')"
    by (simp add: post_publish_eq loadDraft_cases disk_with_written)
  with publish_copies_draft [of ?d ?b ?d'] show ?thesis by simp
qed

subsection \<open>The draft status\<close>

lemma hasChanges_iff: "hasChanges d \<longleftrightarrow> loadData d \<noteq> loadDraft d"
  by (simp add: hasChanges_def Let_def JSON_stringify_inj)

text \<open>
  Claim C1, as amended. \<open>hasChanges\<close> is true exactly when the published document
  and the draft differ as ordered documents: the handler compares their serialisations,
  which \<^verbatim>\<open>JSON.stringify\<close> writes in the insertion order of the members, and the
  serialisation is injective. So when \<open>hasChanges\<close> is false the two documents are
  equal, and then structurally equal; and it is false right after a publish or a
  discard that answered 200. The converse fails: two structurally equal documents whose
  members stand in different orders have changes.
\<close>

theorem hasChanges_ordered:
  "(hasChanges d \<longleftrightarrow> loadData d \<noteq> loadDraft d)
   \<and> (\<not> hasChanges d \<longrightarrow> struct_eq (loadData d) (loadDraft d))
   \<and> (post_publish d = (Reply 200 b, d') \<longrightarrow> \<not> hasChanges d')
   \<and> (post_discard d = (Reply 200 b, d') \<longrightarrow> \<not> hasChanges d')"
proof (intro conjI impI)
  show "hasChanges d \<longleftrightarrow> loadData d \<noteq> loadDraft d" by (rule hasChanges_iff)
next
  assume "\<not> hasChanges d"
  then show "struct_eq (loadData d) (loadDraft d)"
    by (simp add: hasChanges_iff canon_refl)
next
  assume "post_publish d = (Reply 200 b, d')"
  then have "d' = d\<lparr>files := (files d)(DATA_FILE := Content (Json (loadDraft d)))\<rparr>"
    by (simp add: post_publish_eq split: if_splits)
  then show "\<not> hasChanges d'"
    by (simp add: hasChanges_iff loadDraft_after_publish)
next
  assume "post_discard d = (Reply 200 b, d')"
  then have "d' = d\<lparr>files := (files d)(DRAFT_FILE := Content (Json (loadData d)))\<rparr>"
    by (simp add: post_discard_eq split: if_splits)
  then show "\<not> hasChanges d'"
    by (simp add: hasChanges_iff paths_distinct)
qed

text \<open>The theorem at a draft with one more group than the published document, before
  and after publishing and discarding.\<close>

theorem hasChanges_ordered_witness:
  "hasChanges (disk_with (Content (Json empty_snapshot))
       (Content (Json (JObj [(''groups'', JArr [JStr ''A'']), (''logs'', JArr [])]))))
   \<and> \<not> hasChanges (disk_with (Content (Json (JObj [(''groups'', JArr [JStr ''A'']), (''logs'', JArr [])])))
       (Content (Json (JObj [(''groups'', JArr [JStr ''A'']), (''logs'', JArr [])]))))
   \<and> \<not> hasChanges (disk_with (Content (Json empty_snapshot)) (Content (Json empty_snapshot)))
   \<and> struct_eq (loadData (disk_with (Content (Json empty_snapshot)) (Content (Json empty_snapshot))))
        (loadDraft (disk_with (Content (Json empty_snapshot)) (Content (Json empty_snapshot))))"
proof -
  let ?new = "JObj [(''groups'', JArr [JStr ''A'']), (''logs'', JArr [])]"
  let ?d = "disk_with (Content (Json empty_snapshot)) (Content (Json ?new))"
  let ?p = "disk_with (Content (Json ?new)) (Content (Json ?new))"
  let ?e = "disk_with (Content (Json empty_snapshot)) (Content (Json empty_snapshot))"
  have p: "post_publish ?d
      = (Reply 200 (JObj [(''status'', JStr ''ok''), (''message'', JStr ''Published successfully'')]), ?p)"
    by (simp add: post_publish_eq loadDraft_cases disk_with_written)
  have q: "post_discard ?d
      = (Reply 200 (JObj [(''status'', JStr ''ok''), (''message'', JStr ''Draft discarded'')]), ?e)"
    by (simp add: post_discard_eq loadData_cases disk_with_written)
  have ne: "loadData ?d \<noteq> loadDraft ?d"
    by (simp add: loadData_cases loadDraft_cases empty_snapshot_def)
  show ?thesis
    using hasChanges_ordered [of ?d _ ?p] hasChanges_ordered [of ?d _ ?e]
      hasChanges_ordered [of ?e] p q ne
    by simp
qed

text \<open>Claim C1 as stated fails when the draft is saved with its two members in the
  other order: the request is accepted, the two documents are structurally equal, and
  \<open>hasChanges\<close> is true, while it is false for the same draft in the order of the
  published document.\<close>

theorem hasChanges_key_order_counterexample:
  "snd (post_save (JObj [(''logs'', JArr []), (''groups'', JArr [])])
      (disk_with (Content (Json (JObj [(''groups'', JArr []), (''logs'', JArr [])])))
         (Content (Json (JObj [(''groups'', JArr []), (''logs'', JArr [])])))))
     = disk_with (Content (Json (JObj [(''groups'', JArr []), (''logs'', JArr [])])))
         (Content (Json (JObj [(''logs'', JArr []), (''groups'', JArr [])])))
   \<and> struct_eq
        (loadData (disk_with (Content (Json (JObj [(''groups'', JArr []), (''logs'', JArr [])])))
           (Content (Json (JObj [(''logs'', JArr []), (''groups'', JArr [])])))))
        (loadDraft (disk_with (Content (Json (JObj [(''groups'', JArr []), (''logs'', JArr [])])))
           (Content (Json (JObj [(''logs'', JArr []), (''groups'', JArr [])])))))
   \<and> hasChanges (disk_with (Content (Json (JObj [(''groups'', JArr []), (''logs'', JArr [])])))
        (Content (Json (JObj [(''logs'', JArr []), (''groups'', JArr [])]))))
   \<and> \<not> hasChanges (disk_with (Content (Json (JObj [(''groups'', JArr []), (''logs'', JArr [])])))
        (Content (Json (JObj [(''groups'', JArr []), (''logs'', JArr [])]))))"
proof -
  have s: "struct_eq (JObj [(''groups'', JArr []), (''logs'', JArr [])])
      (JObj [(''logs'', JArr []), (''groups'', JArr [])])"
    by code_simp
  show ?thesis
    using s
    by (simp add: post_save_def saveDraft_eq disk_with_written hasChanges_iff
        loadData_cases loadDraft_cases)
qed

subsection \<open>Saving\<close>

text \<open>
  Claim C4, as amended. \<open>saveData\<close> and \<open>saveDraft\<close> each make one call,
  \<^verbatim>\<open>fs.writeFileSync\<close> on the document's own path, with no temporary file and no
  rename. When the call returns, the file holds the new document in place of whatever
  it held, a load returns that document, and no other file has changed. Nothing is
  claimed about what a reader sees while the write is under way.
\<close>

theorem save_writes_in_place:
  "saveData_calls data = [WriteFileSync DATA_FILE (JSON_stringify_indented data)]
   \<and> saveDraft_calls data = [WriteFileSync DRAFT_FILE (JSON_stringify_indented data)]
   \<and> (saveData data d = Inr d' \<longrightarrow>
        files d' DATA_FILE = Content (Json data) \<and> loadData d' = data
        \<and> (\<forall>p. p \<noteq> DATA_FILE \<longrightarrow> files d' p = files d p))
   \<and> (saveDraft data d = Inr d' \<longrightarrow>
        files d' DRAFT_FILE = Content (Json data) \<and> loadDraft d' = data
        \<and> (\<forall>p. p \<noteq> DRAFT_FILE \<longrightarrow> files d' p = files d p))"
  by (auto simp: saveData_calls_def saveDraft_calls_def saveData_eq saveDraft_eq
      split: if_splits)

text \<open>The theorem at a disk whose published file was malformed and whose draft was
  missing.\<close>

theorem save_writes_in_place_witness:
  "saveData (JObj [(''groups'', JArr [JStr ''A'']), (''logs'', JArr [])])
       (disk_with (Content Malformed) Missing)
     = Inr (disk_with (Content (Json (JObj [(''groups'', JArr [JStr ''A'']), (''logs'', JArr [])]))) Missing)
   \<and> loadData (disk_with (Content (Json (JObj [(''groups'', JArr [JStr ''A'']), (''logs'', JArr [])]))) Missing)
     = JObj [(''groups'', JArr [JStr ''A'']), (''logs'', JArr [])]
   \<and> saveDraft (JObj [(''groups'', JArr [JStr ''A'']), (''logs'', JArr [])])
       (disk_with (Content Malformed) Missing)
     = Inr (disk_with (Content Malformed) (Content (Json (JObj [(''groups'', JArr [JStr ''A'']), (''logs'', JArr [])]))))
   \<and> loadDraft (disk_with (Content Malformed) (Content (Json (JObj [(''groups'', JArr [JStr ''A'']), (''logs'', JArr [])]))))
     = JObj [(''groups'', JArr [JStr ''A'']), (''logs'', JArr [])]"
proof -
  let ?v = "JObj [(''groups'', JArr [JStr ''A'']), (''logs'', JArr [])]"
  let ?d = "disk_with (Content Malformed) Missing"
  have a: "saveData ?v ?d = Inr (disk_with (Content (Json ?v)) Missing)"
    by (simp add: saveData_eq disk_with_written)
  have b: "saveDraft ?v ?d = Inr (disk_with (Content Malformed) (Content (Json ?v)))"
    by (simp add: saveDraft_eq disk_with_written)
  show ?thesis
    using save_writes_in_place [of ?v ?d "disk_with (Content (Json ?v)) Missing"]
      save_writes_in_place [of ?v ?d "disk_with (Content Malformed) (Content (Json ?v))"] a b
    by simp
qed

text \<open>Claim C4 as stated fails: the calls of a save are not a write to a temporary
  path followed by a rename onto the target.\<close>

theorem save_no_rename_counterexample:
  "\<not> write_then_rename DATA_FILE (saveData_calls empty_snapshot)
   \<and> \<not> write_then_rename DRAFT_FILE (saveDraft_calls empty_snapshot)
   \<and> saveData_calls empty_snapshot = [WriteFileSync DATA_FILE (Json empty_snapshot)]
   \<and> saveDraft_calls empty_snapshot = [WriteFileSync DRAFT_FILE (Json empty_snapshot)]"
  by (simp add: saveData_calls_def saveDraft_calls_def JSON_stringify_indented_def)

subsection \<open>Saving the draft through the interface\<close>

lemma isArray_field_truthy:
  "Array_isArray (field body name) \<Longrightarrow> truthy (Some body)"
  by (cases body) simp_all

text \<open>
  Claim C8. \<^verbatim>\<open>POST /api/save\<close> answers 400 exactly when \<open>groups\<close> or \<open>logs\<close> of
  the body is not an array. Whenever the answer is not 200 the disk is as it was.
  When the answer is 200 the draft file holds the body, \<open>loadDraft\<close> returns the
  body, and the published document is as it was.
\<close>

theorem post_save_validates:
  "((\<exists>b. fst (post_save body d) = Reply 400 b) \<longleftrightarrow>
       \<not> (Array_isArray (field body ''groups'') \<and> Array_isArray (field body ''logs'')))
   \<and> ((\<forall>b. fst (post_save body d) \<noteq> Reply 200 b) \<longrightarrow> snd (post_save body d) = d)
   \<and> (fst (post_save body d) = Reply 200 b \<longrightarrow>
        files (snd (post_save body d)) DRAFT_FILE = Content (Json body)
        \<and> loadDraft (snd (post_save body d)) = body
        \<and> loadData (snd (post_save body d)) = loadData d)"
  using isArray_field_truthy [of body "''groups''"]
  by (auto simp: post_save_def saveDraft_eq paths_distinct)

text \<open>The theorem at a body that is accepted and at one whose \<open>logs\<close> is a string.\<close>

theorem post_save_validates_witness:
  "fst (post_save (JObj [(''groups'', JArr [JStr ''A'']), (''logs'', JArr [])])
        (disk_with (Content (Json empty_snapshot)) (Content (Json empty_snapshot))))
     = Reply 200 (JObj [(''status'', JStr ''ok''), (''target'', JStr ''draft'')])
   \<and> loadDraft (snd (post_save (JObj [(''groups'', JArr [JStr ''A'']), (''logs'', JArr [])])
        (disk_with (Content (Json empty_snapshot)) (Content (Json empty_snapshot)))))
     = JObj [(''groups'', JArr [JStr ''A'']), (''logs'', JArr [])]
   \<and> fst (post_save (JObj [(''groups'', JArr [JStr ''A'']), (''logs'', JStr ''none'')])
        (disk_with (Content (Json empty_snapshot)) (Content (Json empty_snapshot))))
     = Reply 400 (JObj [(''error'', JStr ''Groups and logs must be arrays'')])
   \<and> snd (post_save (JObj [(''groups'', JArr [JStr ''A'']), (''logs'', JStr ''none'')])
        (disk_with (Content (Json empty_snapshot)) (Content (Json empty_snapshot))))
     = disk_with (Content (Json empty_snapshot)) (Content (Json empty_snapshot))"
proof -
  let ?good = "JObj [(''groups'', JArr [JStr ''A'']), (''logs'', JArr [])]"
  let ?bad = "JObj [(''groups'', JArr [JStr ''A'']), (''logs'', JStr ''none'')]"
  let ?d = "disk_with (Content (Json empty_snapshot)) (Content (Json empty_snapshot))"
  have g: "fst (post_save ?good ?d) = Reply 200 (JObj [(''status'', JStr ''ok''), (''target'', JStr ''draft'')])"
    by (simp add: post_save_def saveDraft_eq)
  have b: "fst (post_save ?bad ?d) = Reply 400 (JObj [(''error'', JStr ''Groups and logs must be arrays'')])"
    by (simp add: post_save_def)
  show ?thesis
    using post_save_validates [of ?good ?d] post_save_validates [of ?bad ?d] g b
    by simp
qed

section \<open>The log handlers\<close>

subsection \<open>Filtering the published logs\<close>

lemma Array_filter_total:
  "\<forall>x\<in>set xs. keep x = Inr (p x) \<Longrightarrow> Array_filter keep xs = Inr (filter p xs)"
  by (induction xs) simp_all

lemma Array_filter_Inr:
  "Array_filter keep xs = Inr ys \<Longrightarrow> ys = filter (\<lambda>x. keep x = Inr True) xs"
  by (induction xs arbitrary: ys) (auto split: sum.splits if_splits)

lemma map_of_assign_member [simp]: "map_of (assign_member kvs k v) k = Some v"
  by (induction kvs k v rule: assign_member.induct) simp_all

lemma assign_member_same: "map_of kvs k = Some v \<Longrightarrow> assign_member kvs k v = kvs"
  by (induction kvs k v rule: assign_member.induct) (auto split: if_splits)

lemma logs_array_Inr:
  "logs_array data = Inr logs \<longleftrightarrow> (\<exists>kvs. data = JObj kvs \<and> map_of kvs ''logs'' = Some (JArr logs))"
  by (cases data) (auto simp: logs_array_def split: option.splits json.splits)

lemma logs_of_logs_array: "logs_array data = Inr logs \<Longrightarrow> logs_of data = logs"
  by (auto simp: logs_array_Inr logs_of_def)

lemma logs_of_set_logs: "logs_array data = Inr logs \<Longrightarrow> logs_of (set_logs data xs) = xs"
  by (auto simp: logs_array_Inr logs_of_def)

lemma set_logs_same: "logs_array data = Inr logs \<Longrightarrow> set_logs data logs = data"
  by (auto simp: logs_array_Inr assign_member_same)

lemma length_removed: "length xs - length (filter p xs) = length (filter (\<lambda>x. \<not> p x) xs)"
  using sum_length_filter_compl [of p xs] by simp

lemma remove_logs_total:
  assumes "logs_array (loadData d) = Inr logs" "\<forall>l\<in>set logs. keep l = Inr (p l)"
    "\<not> write_denied d DATA_FILE"
  shows "remove_logs keep d =
    Inr (length (filter (\<lambda>l. \<not> p l) logs),
         d\<lparr>files := (files d)(DATA_FILE := Content (Json (set_logs (loadData d) (filter p logs))))\<rparr>)"
proof -
  have "Array_filter keep logs = Inr (filter p logs)"
    using assms(2) by (rule Array_filter_total)
  with assms(1,3) show ?thesis
    by (simp add: remove_logs_def saveData_eq length_removed)
qed

lemma remove_logs_Inr:
  assumes "remove_logs keep d = Inr (n, d')"
  shows "\<exists>logs. logs_array (loadData d) = Inr logs
      \<and> d' = d\<lparr>files := (files d)(DATA_FILE :=
           Content (Json (set_logs (loadData d) (filter (\<lambda>x. keep x = Inr True) logs))))\<rparr>"
  using assms
  by (auto simp: remove_logs_def saveData_eq Let_def split: sum.splits if_splits
      dest!: Array_filter_Inr)

lemma get_not_null: "l \<noteq> JNull \<Longrightarrow> get (Some l) name = Inr (field l name)"
  by (cases l) simp_all

lemma published_logs_simps [simp]:
  "logs_array (JObj [(''groups'', JArr []), (''logs'', JArr logs)]) = Inr logs"
  "write_denied (published_logs logs) p = False"
  "loadData (published_logs logs) = JObj [(''groups'', JArr []), (''logs'', JArr logs)]"
  by (simp_all add: published_logs_def loadData_cases logs_array_def)

lemma published_logs_written:
  "(published_logs logs)\<lparr>files := (files (published_logs logs))(DATA_FILE :=
      Content (Json (JObj [(''groups'', JArr []), (''logs'', JArr logs')])))\<rparr> = published_logs logs'"
  by (simp add: published_logs_def disk_with_written)

lemma entry_simps [simp]:
  "entry n dt g t \<noteq> JNull" "JNull \<noteq> entry n dt g t"
  "field (entry n dt g t) ''ts'' = Some (JNum n)"
  "field (entry n dt g t) ''date'' = Some (JStr dt)"
  "field (entry n dt g t) ''group'' = Some (JStr g)"
  "field (entry n dt g t) ''type'' = Some (JStr t)"
  by (simp_all add: entry_def)

lemma entry_truthy: "truthy (Some (entry n dt g t))"
  by (simp add: entry_def)

lemma ts_id_entry [simp]: "ts_id (entry n dt g t) = Number_toString n"
  by (simp add: ts_id_def)

lemma small_numerals:
  "Number_toString 1 = ''1''" "Number_toString 2 = ''2''" "Number_toString 3 = ''3''"
  "Number_toString 4 = ''4''"
  by code_simp+

lemma decode_plain:
  "decodeURIComponent ''A'' = Inr ''A''" "decodeURIComponent ''2024-01-01'' = Inr ''2024-01-01''"
  by code_simp+

subsection \<open>Deleting by timestamp\<close>

lemma ToString_ok: "\<not> String_throws v \<Longrightarrow> ToString (Some v) = Inr (to_String v)"
  by (simp add: ToString_def)

lemma keep_ts_eq:
  assumes "ts_ok l"
  shows "keep_ts ts l = Inr (ts_id l \<noteq> ts)"
proof -
  from assms have nn: "l \<noteq> JNull" by (simp add: ts_ok_def)
  have s: "ToString (Some (JStr ts)) = Inr ts" by (simp add: ToString_def)
  show ?thesis
  proof (cases "field l ''ts''")
    case None
    then show ?thesis
      by (simp add: keep_ts_def get_not_null [OF nn] ts_id_def ToString_def)
  next
    case (Some v)
    with assms have "\<not> String_throws v" by (simp add: ts_ok_def)
    with Some s show ?thesis
      by (simp add: keep_ts_def get_not_null [OF nn] ts_id_def ToString_ok)
  qed
qed

lemma distinct_map_count:
  "distinct (map f xs) \<Longrightarrow> length (filter (\<lambda>x. f x = k) xs) \<le> 1"
  by (induction xs) (auto simp: image_iff filter_empty_conv)

lemma filter_none: "k \<notin> set (map f xs) \<Longrightarrow> filter (\<lambda>x. f x \<noteq> k) xs = xs \<and> filter (\<lambda>x. f x = k) xs = []"
  by (induction xs) auto

lemma delete_logs_ts_result:
  assumes "logs_array (loadData d) = Inr logs" "list_all ts_ok logs" "\<not> write_denied d DATA_FILE"
  shows "delete_logs_ts ts d =
    (Reply 200 (JObj [(''status'', JStr ''deleted''), (''ts'', JStr ts),
        (''removed'', JNum (int (length (filter (\<lambda>l. ts_id l = ts) logs))))]),
     d\<lparr>files := (files d)(DATA_FILE :=
        Content (Json (set_logs (loadData d) (filter (\<lambda>l. ts_id l \<noteq> ts) logs))))\<rparr>)"
proof -
  have "\<forall>l\<in>set logs. keep_ts ts l = Inr (ts_id l \<noteq> ts)"
    using assms(2) by (simp add: list_all_iff keep_ts_eq)
  from remove_logs_total [OF assms(1) this assms(3)] show ?thesis
    by (simp add: delete_logs_ts_def)
qed

lemma ts_unique_numbers:
  assumes "list_all (\<lambda>l. case field l ''ts'' of Some (JNum n) \<Rightarrow> True | _ \<Rightarrow> False) logs"
    and "distinct (map (\<lambda>l. field l ''ts'') logs)"
  shows "ts_unique logs"
proof -
  have num: "\<exists>n. x = Some (JNum n)" if "x \<in> set (map (\<lambda>l. field l ''ts'') logs)" for x
  proof -
    from that obtain l where l: "l \<in> set logs" "x = field l ''ts''" by auto
    with assms(1) have "case x of Some (JNum n) \<Rightarrow> True | _ \<Rightarrow> False"
      by (simp add: list_all_iff)
    then show ?thesis by (cases x) (auto split: json.splits)
  qed
  have "inj_on js_String (set (map (\<lambda>l. field l ''ts'') logs))"
  proof (rule inj_onI)
    fix x y
    assume x: "x \<in> set (map (\<lambda>l. field l ''ts'') logs)"
      and y: "y \<in> set (map (\<lambda>l. field l ''ts'') logs)"
      and e: "js_String x = js_String y"
    from x num obtain m where m: "x = Some (JNum m)" by blast
    from y num obtain n where n: "y = Some (JNum n)" by blast
    from e m n have "Number_toString m = Number_toString n" by simp
    then have "m = n" by (rule Number_toString_inj)
    with m n show "x = y" by simp
  qed
  with assms(2) have "distinct (map js_String (map (\<lambda>l. field l ''ts'') logs))"
    using distinct_map [of js_String "map (\<lambda>l. field l ''ts'') logs"] by blast
  then show ?thesis by (simp add: ts_unique_def ts_id_def [abs_def] comp_def)
qed

text \<open>
  Claim C7, as amended. Let the published document have the logs \<open>logs\<close>, each of
  them not null and with a \<open>ts\<close> that \<^verbatim>\<open>String\<close> converts (no object with a
  \<^verbatim>\<open>toString\<close> member of its own, numbers safe integers), and let the write succeed.
  Then \<^verbatim>\<open>DELETE /api/logs/:ts\<close> answers with the number of entries whose \<open>ts\<close>,
  turned into a string by \<^verbatim>\<open>String\<close>, is the identifier, and the logs afterwards are
  the other entries, in their order. An entry whose \<open>ts\<close> is the number \<open>n\<close> is
  removed exactly by the decimal form of \<open>n\<close>. When the \<open>ts\<close> values are unique as
  strings, which is how the handler compares them, at most one entry is removed;
  \<open>ts\<close> values that are all numbers and pairwise distinct are unique as strings. When
  no entry has the identifier none is removed, and the document is unchanged.
\<close>

theorem delete_by_timestamp:
  assumes "logs_array (loadData d) = Inr logs" "list_all ts_ok logs" "\<not> write_denied d DATA_FILE"
  shows "fst (delete_logs_ts ts d) =
      Reply 200 (JObj [(''status'', JStr ''deleted''), (''ts'', JStr ts),
        (''removed'', JNum (int (length (filter (\<lambda>l. ts_id l = ts) logs))))])
    \<and> logs_of (loadData (snd (delete_logs_ts ts d))) = filter (\<lambda>l. ts_id l \<noteq> ts) logs
    \<and> (ts_unique logs \<longrightarrow> length (filter (\<lambda>l. ts_id l = ts) logs) \<le> 1)
    \<and> (list_all (\<lambda>l. case field l ''ts'' of Some (JNum n) \<Rightarrow> True | _ \<Rightarrow> False) logs
          \<and> distinct (map (\<lambda>l. field l ''ts'') logs) \<longrightarrow> ts_unique logs)
    \<and> (ts \<notin> set (map ts_id logs) \<longrightarrow>
         length (filter (\<lambda>l. ts_id l = ts) logs) = 0
         \<and> loadData (snd (delete_logs_ts ts d)) = loadData d)
    \<and> (\<forall>l\<in>set logs. \<forall>n. field l ''ts'' = Some (JNum n) \<longrightarrow>
          (ts_id l = ts \<longleftrightarrow> Number_toString n = ts))"
proof (intro conjI impI allI ballI)
  note r = delete_logs_ts_result [OF assms, of ts]
  show "fst (delete_logs_ts ts d) =
      Reply 200 (JObj [(''status'', JStr ''deleted''), (''ts'', JStr ts),
        (''removed'', JNum (int (length (filter (\<lambda>l. ts_id l = ts) logs))))])"
    by (simp add: r)
  show "logs_of (loadData (snd (delete_logs_ts ts d))) = filter (\<lambda>l. ts_id l \<noteq> ts) logs"
    by (simp add: r logs_of_set_logs [OF assms(1)])
  show "length (filter (\<lambda>l. ts_id l = ts) logs) \<le> 1" if "ts_unique logs"
    using that distinct_map_count [of ts_id logs ts] by (simp add: ts_unique_def)
  show "ts_unique logs"
    if "list_all (\<lambda>l. case field l ''ts'' of Some (JNum n) \<Rightarrow> True | _ \<Rightarrow> False) logs
          \<and> distinct (map (\<lambda>l. field l ''ts'') logs)"
    using that by (simp add: ts_unique_numbers)
  show "length (filter (\<lambda>l. ts_id l = ts) logs) = 0" if "ts \<notin> set (map ts_id logs)"
    using filter_none [OF that] by simp
  show "loadData (snd (delete_logs_ts ts d)) = loadData d" if "ts \<notin> set (map ts_id logs)"
    using filter_none [OF that] by (simp add: r set_logs_same [OF assms(1)])
  show "ts_id l = ts \<longleftrightarrow> Number_toString n = ts" if "field l ''ts'' = Some (JNum n)" for l n
    using that by (simp add: ts_id_def)
qed

text \<open>The theorem on the four entries of the cascade scenario, for the identifier 3
  and for the unknown identifier 9.\<close>

lemma ts_ok_entry: "\<bar>n\<bar> < 2 ^ 53 \<Longrightarrow> ts_ok (entry n dt g t)"
  by (simp add: ts_ok_def)

theorem delete_by_timestamp_witness:
  "fst (delete_logs_ts ''3'' (published_logs cascade_logs)) =
      Reply 200 (JObj [(''status'', JStr ''deleted''), (''ts'', JStr ''3''), (''removed'', JNum 1)])
   \<and> logs_of (loadData (snd (delete_logs_ts ''3'' (published_logs cascade_logs)))) =
      [entry 1 ''2024-01-01'' ''A'' ''signin'', entry 2 ''2024-01-01'' ''X'' ''group-create'',
       entry 4 ''2024-01-02'' ''A'' ''signin'']
   \<and> ts_unique cascade_logs
   \<and> fst (delete_logs_ts ''9'' (published_logs cascade_logs)) =
      Reply 200 (JObj [(''status'', JStr ''deleted''), (''ts'', JStr ''9''), (''removed'', JNum 0)])
   \<and> loadData (snd (delete_logs_ts ''9'' (published_logs cascade_logs)))
      = loadData (published_logs cascade_logs)"
proof -
  have a: "logs_array (loadData (published_logs cascade_logs)) = Inr cascade_logs" by simp
  have b: "list_all ts_ok cascade_logs" by (simp add: cascade_logs_def ts_ok_entry)
  have c: "\<not> write_denied (published_logs cascade_logs) DATA_FILE" by simp
  have k: "list_all (\<lambda>l. case field l ''ts'' of Some (JNum n) \<Rightarrow> True | _ \<Rightarrow> False) cascade_logs"
    by (simp add: cascade_logs_def)
  have v: "distinct (map (\<lambda>l. field l ''ts'') cascade_logs)"
    by (simp add: cascade_logs_def)
  have n: "''9'' \<notin> set (map ts_id cascade_logs)"
    by (simp add: cascade_logs_def small_numerals)
  show ?thesis
    using delete_by_timestamp [OF a b c, of "''3''"] delete_by_timestamp [OF a b c, of "''9''"] k v n
    by (simp add: cascade_logs_def small_numerals)
qed

text \<open>Claim C7 as stated fails when the \<open>ts\<close> values are unique as values and not as
  strings: of two entries, one with the number 3 and one with the string \<^verbatim>\<open>"3"\<close> as
  \<open>ts\<close>, the identifier 3 removes both.\<close>

theorem mixed_ts_counterexample:
  "distinct (map (\<lambda>l. field l ''ts'')
      [entry 3 ''2024-01-01'' ''A'' ''signin'',
       JObj [(''ts'', JStr ''3''), (''date'', JStr ''2024-01-01''), (''type'', JStr ''signin'')]])
   \<and> fst (delete_logs_ts ''3'' (published_logs
      [entry 3 ''2024-01-01'' ''A'' ''signin'',
       JObj [(''ts'', JStr ''3''), (''date'', JStr ''2024-01-01''), (''type'', JStr ''signin'')]]))
     = Reply 200 (JObj [(''status'', JStr ''deleted''), (''ts'', JStr ''3''), (''removed'', JNum 2)])
   \<and> logs_of (loadData (snd (delete_logs_ts ''3'' (published_logs
      [entry 3 ''2024-01-01'' ''A'' ''signin'',
       JObj [(''ts'', JStr ''3''), (''date'', JStr ''2024-01-01''), (''type'', JStr ''signin'')]]))))
     = []"
proof -
  let ?s = "JObj [(''ts'', JStr ''3''), (''date'', JStr ''2024-01-01''), (''type'', JStr ''signin'')]"
  let ?logs = "[entry 3 ''2024-01-01'' ''A'' ''signin'', ?s]"
  have a: "logs_array (loadData (published_logs ?logs)) = Inr ?logs" by simp
  have b: "list_all ts_ok ?logs" by (simp add: ts_ok_entry) (simp add: ts_ok_def)
  have c: "\<not> write_denied (published_logs ?logs) DATA_FILE" by simp
  have i: "ts_id ?s = ''3''" by (simp add: ts_id_def)
  show ?thesis
    by (simp add: delete_logs_ts_result [OF a b c] logs_of_def small_numerals i)
qed

subsection \<open>Deleting by group and date\<close>









subsection \<open>Deleting by group\<close>

text \<open>On logs whose entries all have a string as \<open>group\<close>, the handler of
  \<^verbatim>\<open>DELETE /api/logs/:groupName\<close> removes exactly the entries of the group, with the
  names compared as \<open>toLowerCase\<close> folds them.\<close>

lemma keep_group_eq:
  assumes "field l ''group'' = Some (JStr s)" "decodeURIComponent groupName = Inr g"
  shows "keep_group groupName l = Inr (\<not> group_matches g l)"
proof -
  from assms(1) have "l \<noteq> JNull" by auto
  with assms show ?thesis
    by (simp add: keep_group_def get_not_null group_matches_def)
qed

lemma delete_logs_group_typed:
  assumes "decodeURIComponent groupName = Inr g" "logs_array (loadData d) = Inr logs"
    "\<forall>l\<in>set logs. \<exists>s. field l ''group'' = Some (JStr s)" "\<not> write_denied d DATA_FILE"
  shows "delete_logs_group groupName d =
    (Reply 200 (JObj [(''status'', JStr ''deleted''), (''groupName'', JStr g),
        (''removed'', JNum (int (length (filter (group_matches g) logs))))]),
     d\<lparr>files := (files d)(DATA_FILE :=
        Content (Json (set_logs (loadData d) (filter (\<lambda>l. \<not> group_matches g l) logs))))\<rparr>)"
proof -
  have "\<forall>l\<in>set logs. keep_group groupName l = Inr (\<not> group_matches g l)"
    using assms(1,3) by (metis keep_group_eq)
  from remove_logs_total [OF assms(2) this assms(4)] assms(1) show ?thesis
    by (simp add: delete_logs_group_def)
qed

text \<open>
  Claim C3 does not hold of the code. On a published log with an entry that has no
  \<open>group\<close>, the handler throws a TypeError (\<^verbatim>\<open>log.group.toLowerCase()\<close> on
  \<^verbatim>\<open>undefined\<close>) and nothing is written, where the claim says the entry is left in
  place without a fault. And the request \<^verbatim>\<open>DELETE /api/logs/A\<close> does not reach this
  handler: it is served by the timestamp handler, which removes nothing and leaves the
  entry of group \<open>A\<close> in place.
\<close>

theorem delete_by_group_faults:
  "delete_logs_group ''A''
      (published_logs [JObj [(''ts'', JNum 1), (''date'', JStr ''2024-01-01''), (''type'', JStr ''signin'')]])
     = (Thrown TypeError,
        published_logs [JObj [(''ts'', JNum 1), (''date'', JStr ''2024-01-01''), (''type'', JStr ''signin'')]])
   \<and> fst (serve DELETE [''api'', ''logs'', ''A''] JNull
        (published_logs [entry 1 ''2024-01-01'' ''A'' ''signin'']))
     = Reply 200 (JObj [(''status'', JStr ''deleted''), (''ts'', JStr ''A''), (''removed'', JNum 0)])
   \<and> logs_of (loadData (snd (serve DELETE [''api'', ''logs'', ''A''] JNull
        (published_logs [entry 1 ''2024-01-01'' ''A'' ''signin'']))))
     = [entry 1 ''2024-01-01'' ''A'' ''signin'']"
proof -
  let ?e = "entry 1 ''2024-01-01'' ''A'' ''signin''"
  have a: "logs_array (loadData (published_logs [?e])) = Inr [?e]" by simp
  have b: "list_all ts_ok [?e]" by (simp add: ts_ok_entry)
  have c: "\<not> write_denied (published_logs [?e]) DATA_FILE" by simp
  have s: "serve DELETE [''api'', ''logs'', ''A''] JNull (published_logs [?e])
      = delete_logs_ts ''A'' (published_logs [?e])"
    by (simp add: serve_def routes_def decode_plain param_def)
  have t: "delete_logs_group ''A''
      (published_logs [JObj [(''ts'', JNum 1), (''date'', JStr ''2024-01-01''), (''type'', JStr ''signin'')]])
     = (Thrown TypeError,
        published_logs [JObj [(''ts'', JNum 1), (''date'', JStr ''2024-01-01''), (''type'', JStr ''signin'')]])"
    by (simp add: delete_logs_group_def remove_logs_def keep_group_def)
  show ?thesis
    by (simp add: t s delete_logs_ts_result [OF a b c] logs_of_def small_numerals)
qed

subsection \<open>The two routes with one parameter\<close>

lemma match_three:
  "match_path [Literal a, Literal b, Parameter n] path = Some ps \<longleftrightarrow>
     (\<exists>s1 s2 x. path = [s1, s2, x] \<and> toLowerCase s1 = toLowerCase a
        \<and> toLowerCase s2 = toLowerCase b \<and> x \<noteq> [] \<and> ps = [(n, x)])"
proof (cases path)
  case Nil
  then show ?thesis by simp
next
  case (Cons s1 p1)
  show ?thesis
  proof (cases p1)
    case Nil
    with Cons show ?thesis by simp
  next
    case p1: (Cons s2 p2)
    show ?thesis
    proof (cases p2)
      case Nil
      with Cons p1 show ?thesis by simp
    next
      case p2: (Cons x p3)
      with Cons p1 show ?thesis by (cases p3) auto
    qed
  qed
qed

lemma match_three_None:
  "match_path [Literal a, Literal b, Parameter n] path = None \<longleftrightarrow>
   match_path [Literal a, Literal b, Parameter n'] path = None"
proof -
  have "(\<exists>ps. match_path [Literal a, Literal b, Parameter n] path = Some ps) \<longleftrightarrow>
        (\<exists>ps. match_path [Literal a, Literal b, Parameter n'] path = Some ps)"
    unfolding match_three by blast
  then show ?thesis by (metis option.exhaust option.distinct(1))
qed

lemma group_route_shadowed:
  "find_route routes m path \<noteq> Some (Delete_logs_groupName, ps)"
proof (cases m)
  case DELETE
  show ?thesis
  proof (cases "match_path [Literal ''api'', Literal ''logs'', Parameter ''ts''] path")
    case None
    with match_three_None [of "''api''" "''logs''" "''ts''" path "''groupName''"]
    have "match_path [Literal ''api'', Literal ''logs'', Parameter ''groupName''] path = None"
      by simp
    with None DELETE show ?thesis
      by (simp add: routes_def split: option.splits)
  next
    case (Some a)
    with DELETE show ?thesis by (simp add: routes_def)
  qed
qed (simp_all add: routes_def split: option.splits)

text \<open>
  Claim C10. A request \<^verbatim>\<open>DELETE /api/logs/x\<close> with one non-empty segment \<open>x\<close> is
  routed to the timestamp handler with \<open>x\<close> as \<open>ts\<close>: the answer and the disk are
  those of \<open>delete_logs_ts\<close> on the decoded \<open>x\<close> (or Express answers 400 when \<open>x\<close>
  does not decode). No request, whatever its verb and path, is routed to the handler
  of \<^verbatim>\<open>DELETE /api/logs/:groupName\<close>.
\<close>

theorem timestamp_route_shadows_group_route:
  "(x \<noteq> [] \<longrightarrow>
      find_route routes DELETE [''api'', ''logs'', x] = Some (Delete_logs_ts, [(''ts'', x)])
      \<and> serve DELETE [''api'', ''logs'', x] body d =
          (case decodeURIComponent x of
             Inl e \<Rightarrow> (Express_page 400, d)
           | Inr ts \<Rightarrow> delete_logs_ts ts d))
   \<and> (\<forall>m path ps. find_route routes m path \<noteq> Some (Delete_logs_groupName, ps))"
proof (intro conjI impI allI)
  assume x: "x \<noteq> []"
  then show r: "find_route routes DELETE [''api'', ''logs'', x] = Some (Delete_logs_ts, [(''ts'', x)])"
    by (simp add: routes_def)
  show "serve DELETE [''api'', ''logs'', x] body d =
          (case decodeURIComponent x of
             Inl e \<Rightarrow> (Express_page 400, d)
           | Inr ts \<Rightarrow> delete_logs_ts ts d)"
    by (simp add: serve_def r param_def split: sum.splits)
next
  fix m path ps
  show "find_route routes m path \<noteq> Some (Delete_logs_groupName, ps)"
    by (rule group_route_shadowed)
qed

text \<open>The theorem at the request \<^verbatim>\<open>DELETE /api/logs/A\<close>.\<close>

theorem timestamp_route_shadows_group_route_witness:
  "find_route routes DELETE [''api'', ''logs'', ''A''] = Some (Delete_logs_ts, [(''ts'', ''A'')])
   \<and> serve DELETE [''api'', ''logs'', ''A''] JNull (published_logs cascade_logs)
       = delete_logs_ts ''A'' (published_logs cascade_logs)
   \<and> find_route routes DELETE [''api'', ''logs'', ''A''] \<noteq> Some (Delete_logs_groupName, [(''groupName'', ''A'')])"
  using timestamp_route_shadows_group_route [of "''A''" JNull "published_logs cascade_logs"]
  by (simp add: decode_plain)

subsection \<open>Uniqueness of the timestamps\<close>

lemma ts_unique_filter: "ts_unique xs \<Longrightarrow> ts_unique (filter p xs)"
  by (simp add: ts_unique_def distinct_map_filter)

lemma ts_unique_empty_snapshot: "ts_unique (logs_of empty_snapshot)"
  by (simp add: ts_unique_def logs_of_def empty_snapshot_def)

lemma inv_data_written:
  assumes "ts_invariant d" "ts_unique (logs_of v)"
  shows "ts_invariant (d\<lparr>files := (files d)(DATA_FILE := Content (Json v))\<rparr>)"
proof -
  have "ts_unique (logs_of (loadDraft (d\<lparr>files := (files d)(DATA_FILE := Content (Json v))\<rparr>)))"
    using assms ts_unique_empty_snapshot
    by (auto simp: loadDraft_data_written ts_invariant_def loadDraft_cases
        split: file_state.splits raw.splits)
  with assms(2) show ?thesis by (simp add: ts_invariant_def)
qed

lemma inv_draft_written:
  assumes "ts_invariant d" "ts_unique (logs_of v)"
  shows "ts_invariant (d\<lparr>files := (files d)(DRAFT_FILE := Content (Json v))\<rparr>)"
  using assms by (simp add: ts_invariant_def paths_distinct)

lemma inv_remove_logs:
  assumes "ts_invariant d" "remove_logs keep d = Inr (n, d')"
  shows "ts_invariant d'"
proof -
  from remove_logs_Inr [OF assms(2)] obtain logs where
    l: "logs_array (loadData d) = Inr logs" and
    d': "d' = d\<lparr>files := (files d)(DATA_FILE :=
           Content (Json (set_logs (loadData d) (filter (\<lambda>x. keep x = Inr True) logs))))\<rparr>"
    by blast
  from assms(1) l have "ts_unique logs"
    by (simp add: ts_invariant_def logs_of_logs_array)
  then have "ts_unique (logs_of (set_logs (loadData d) (filter (\<lambda>x. keep x = Inr True) logs)))"
    by (simp add: logs_of_set_logs [OF l] ts_unique_filter)
  with assms(1) show ?thesis unfolding d' by (rule inv_data_written)
qed

lemma inv_delete_logs_ts: "ts_invariant d \<Longrightarrow> ts_invariant (snd (delete_logs_ts ts d))"
  by (auto simp: delete_logs_ts_def split: sum.splits dest: inv_remove_logs)

lemma inv_delete_logs_group: "ts_invariant d \<Longrightarrow> ts_invariant (snd (delete_logs_group g d))"
  by (auto simp: delete_logs_group_def split: sum.splits dest: inv_remove_logs)

lemma inv_delete_logs_group_date:
  "ts_invariant d \<Longrightarrow> ts_invariant (snd (delete_logs_group_date g dt d))"
  by (auto simp: delete_logs_group_date_def split: sum.splits dest: inv_remove_logs)

lemma inv_post_publish:
  assumes "ts_invariant d"
  shows "ts_invariant (snd (post_publish d))"
proof -
  from assms have "ts_unique (logs_of (loadDraft d))" by (simp add: ts_invariant_def)
  with assms show ?thesis by (simp add: post_publish_eq inv_data_written)
qed

lemma inv_post_discard:
  assumes "ts_invariant d"
  shows "ts_invariant (snd (post_discard d))"
proof -
  from assms have "ts_unique (logs_of (loadData d))" by (simp add: ts_invariant_def)
  with assms show ?thesis by (simp add: post_discard_eq inv_draft_written)
qed

lemma inv_post_save:
  "ts_invariant d \<Longrightarrow> ts_unique (logs_of body) \<Longrightarrow> ts_invariant (snd (post_save body d))"
  by (simp add: post_save_def saveDraft_eq inv_draft_written)

lemma inv_post_logs:
  assumes "ts_invariant d" "ts_id e \<notin> set (map ts_id (logs_of (loadData d)))"
  shows "ts_invariant (snd (post_logs e d))"
proof (cases "logs_array (loadData d)")
  case (Inl err)
  with assms(1) show ?thesis by (simp add: post_logs_def Let_def)
next
  case (Inr logs)
  from assms Inr have "ts_unique (logs @ [e])"
    by (simp add: ts_invariant_def logs_of_logs_array ts_unique_def)
  then have "ts_unique (logs_of (set_logs (loadData d) (logs @ [e])))"
    by (simp add: logs_of_set_logs [OF Inr])
  with assms(1) Inr show ?thesis
    by (simp add: post_logs_def Let_def saveData_eq inv_data_written)
qed

text \<open>
  Claim C9, as amended. From a state in which the \<open>ts\<close> values are unique in the
  published logs and in the draft logs, publish, discard and the three deletions lead
  to such a state again. Appending an entry does when the \<open>ts\<close> of the new entry is
  not the \<open>ts\<close> of a published entry, and saving a draft does when the \<open>ts\<close> values
  of the submitted logs are unique: neither handler checks it.
\<close>

theorem ts_uniqueness_preserved:
  assumes "ts_invariant d"
  shows "ts_invariant (snd (post_publish d))
    \<and> ts_invariant (snd (post_discard d))
    \<and> ts_invariant (snd (delete_logs_ts ts d))
    \<and> ts_invariant (snd (delete_logs_group g d))
    \<and> ts_invariant (snd (delete_logs_group_date g dt d))
    \<and> (ts_id e \<notin> set (map ts_id (logs_of (loadData d))) \<longrightarrow> ts_invariant (snd (post_logs e d)))
    \<and> (ts_unique (logs_of body) \<longrightarrow> ts_invariant (snd (post_save body d)))"
  using assms
  by (simp add: inv_post_publish inv_post_discard inv_delete_logs_ts inv_delete_logs_group
      inv_delete_logs_group_date inv_post_logs inv_post_save)

text \<open>The theorem on the cascade scenario.\<close>

lemma ts_unique_cascade: "ts_unique cascade_logs"
  by (simp add: ts_unique_def cascade_logs_def small_numerals)

lemma inv_published_logs: "ts_invariant (published_logs logs) \<longleftrightarrow> ts_unique logs"
  by (simp add: ts_invariant_def loadDraft_cases published_logs_def logs_of_def loadData_cases)

theorem ts_uniqueness_preserved_witness:
  "ts_invariant (published_logs cascade_logs)
   \<and> ts_invariant (snd (post_publish (published_logs cascade_logs)))
   \<and> ts_invariant (snd (delete_logs_group_date ''A'' ''2024-01-01'' (published_logs cascade_logs)))
   \<and> ts_invariant (snd (post_logs (entry 5 ''2024-01-02'' ''B'' ''signin'') (published_logs cascade_logs)))"
proof -
  have i: "ts_invariant (published_logs cascade_logs)"
    by (simp add: inv_published_logs ts_unique_cascade)
  have f: "ts_id (entry 5 ''2024-01-02'' ''B'' ''signin'')
      \<notin> set (map ts_id (logs_of (loadData (published_logs cascade_logs))))"
  proof -
    have "Number_toString 5 = ''5''" by code_simp
    then show ?thesis by (simp add: logs_of_def cascade_logs_def small_numerals)
  qed
  show ?thesis
    using ts_uniqueness_preserved [OF i, where g = "''A''" and dt = "''2024-01-01''"
        and e = "entry 5 ''2024-01-02'' ''B'' ''signin''"] i f
    by simp
qed

text \<open>Claim C9 as stated fails for append: posting an entry with the \<open>ts\<close> of a
  published entry is accepted, and the published logs then hold that \<open>ts\<close> twice.\<close>

theorem append_duplicate_ts_counterexample:
  "ts_invariant (published_logs [entry 1 ''2024-01-01'' ''A'' ''signin''])
   \<and> fst (post_logs (entry 1 ''2024-01-01'' ''A'' ''signin'')
        (published_logs [entry 1 ''2024-01-01'' ''A'' ''signin'']))
      = Reply 200 (JObj [(''status'', JStr ''ok''), (''log'', entry 1 ''2024-01-01'' ''A'' ''signin'')])
   \<and> logs_of (loadData (snd (post_logs (entry 1 ''2024-01-01'' ''A'' ''signin'')
        (published_logs [entry 1 ''2024-01-01'' ''A'' ''signin'']))))
      = [entry 1 ''2024-01-01'' ''A'' ''signin'', entry 1 ''2024-01-01'' ''A'' ''signin'']
   \<and> \<not> ts_invariant (snd (post_logs (entry 1 ''2024-01-01'' ''A'' ''signin'')
        (published_logs [entry 1 ''2024-01-01'' ''A'' ''signin''])))"
proof -
  let ?e = "entry 1 ''2024-01-01'' ''A'' ''signin''"
  have p: "post_logs ?e (published_logs [?e])
      = (Reply 200 (JObj [(''status'', JStr ''ok''), (''log'', ?e)]), published_logs [?e, ?e])"
    by (simp add: post_logs_def saveData_eq published_logs_written entry_truthy)
  show ?thesis
    by (simp add: p inv_published_logs ts_unique_def logs_of_def)
qed

end
